theory Spec2Isabelle
  imports Main
begin

section \<open>Strings\<close>

text \<open>
  A JavaScript string is a sequence of UTF-16 code units. It is modelled as the list of
  its code units, each a natural number; \<open>js\<close> turns an ASCII literal into such a list.
\<close>

type_synonym jsstring = "nat list"

definition js :: "string \<Rightarrow> jsstring" where
  "js s = map of_char s"

text \<open>
  The code units that \<open>String.prototype.trim\<close> strips and that the regular expression
  class \<open>\s\<close> matches: the WhiteSpace and LineTerminator code points of ECMAScript.
\<close>

definition is_space :: "nat \<Rightarrow> bool" where
  "is_space c \<longleftrightarrow>
     c = 9 \<or> c = 10 \<or> c = 11 \<or> c = 12 \<or> c = 13 \<or> c = 32 \<or> c = 160 \<or> c = 5760 \<or>
     (8192 \<le> c \<and> c \<le> 8202) \<or> c = 8232 \<or> c = 8233 \<or> c = 8239 \<or> c = 8287 \<or>
     c = 12288 \<or> c = 65279"

text \<open>The class \<open>\w\<close> (no unicode flag): ASCII letters, digits and the underscore.\<close>

definition is_word :: "nat \<Rightarrow> bool" where
  "is_word c \<longleftrightarrow>
     (48 \<le> c \<and> c \<le> 57) \<or> (65 \<le> c \<and> c \<le> 90) \<or> c = 95 \<or> (97 \<le> c \<and> c \<le> 122)"

definition trim :: "jsstring \<Rightarrow> jsstring" where
  "trim s = rev (dropWhile is_space (rev (dropWhile is_space s)))"

text \<open>
  \<open>toLowerCase\<close> on the ASCII range. Outside it the only code unit that JavaScript maps
  to an ASCII letter is U+212A (to \<open>k\<close>), and no extension that the program compares
  with contains a \<open>k\<close>.
\<close>

definition toLowerCase :: "jsstring \<Rightarrow> jsstring" where
  "toLowerCase s = map (\<lambda>c. if 65 \<le> c \<and> c \<le> 90 then c + 32 else c) s"

text \<open>\<open>s.split(sep)\<close> for a one-character separator: never the empty list.\<close>

fun split :: "nat \<Rightarrow> jsstring \<Rightarrow> jsstring list" where
  "split sep [] = [[]]"
| "split sep (c # cs) =
     (if c = sep then [] # split sep cs
      else (case split sep cs of
              [] \<Rightarrow> [[c]]
            | seg # segs \<Rightarrow> (c # seg) # segs))"

text \<open>\<open>xs.join(sep)\<close> on an array of strings.\<close>

fun join :: "jsstring \<Rightarrow> jsstring list \<Rightarrow> jsstring" where
  "join sep [] = []"
| "join sep [x] = x"
| "join sep (x # y # ys) = x @ sep @ join sep (y # ys)"

text \<open>\<open>xs.findIndex(p)\<close>: the index of the first element that satisfies \<open>p\<close>, or \<open>-1\<close>.\<close>

fun findIndex :: "('a \<Rightarrow> bool) \<Rightarrow> 'a list \<Rightarrow> int" where
  "findIndex p [] = - 1"
| "findIndex p (x # xs) =
     (if p x then 0
      else (let i = findIndex p xs in if i < 0 then - 1 else i + 1))"

text \<open>
  \<open>xs.filter((x, index, self) => ...)\<close>: the callback sees the element, its index and
  the whole array.
\<close>

definition filter_indexed :: "('a \<Rightarrow> nat \<Rightarrow> 'a list \<Rightarrow> bool) \<Rightarrow> 'a list \<Rightarrow> 'a list" where
  "filter_indexed p xs =
     map fst (filter (\<lambda>(x, i). p x i xs) (zip xs [0 ..< length xs]))"


section \<open>Data model (types.ts)\<close>

record ManagedFile =
  file_name :: jsstring
  file_content :: jsstring

record KnowledgeGroup =
  group_id :: jsstring
  group_name :: jsstring
  urls :: "jsstring list"
  files :: "ManagedFile list"


section \<open>Knowledge groups of the application (App.tsx)\<close>

definition GEMINI_DOCS_URLS :: "jsstring list" where
  "GEMINI_DOCS_URLS = map js
    [''https://ai.google.dev/gemini-api/docs'',
     ''https://ai.google.dev/gemini-api/docs/quickstart'',
     ''https://ai.google.dev/gemini-api/docs/api-key'',
     ''https://ai.google.dev/gemini-api/docs/libraries'',
     ''https://ai.google.dev/gemini-api/docs/models'',
     ''https://ai.google.dev/gemini-api/docs/pricing'',
     ''https://ai.google.dev/gemini-api/docs/rate-limits'',
     ''https://ai.google.dev/gemini-api/docs/billing'',
     ''https://ai.google.dev/gemini-api/docs/changelog'']"

definition MODEL_CAPABILITIES_URLS :: "jsstring list" where
  "MODEL_CAPABILITIES_URLS = map js
    [''https://ai.google.dev/gemini-api/docs/text-generation'',
     ''https://ai.google.dev/gemini-api/docs/image-generation'',
     ''https://ai.google.dev/gemini-api/docs/video'',
     ''https://ai.google.dev/gemini-api/docs/speech-generation'',
     ''https://ai.google.dev/gemini-api/docs/music-generation'',
     ''https://ai.google.dev/gemini-api/docs/long-context'',
     ''https://ai.google.dev/gemini-api/docs/structured-output'',
     ''https://ai.google.dev/gemini-api/docs/thinking'',
     ''https://ai.google.dev/gemini-api/docs/function-calling'',
     ''https://ai.google.dev/gemini-api/docs/document-processing'',
     ''https://ai.google.dev/gemini-api/docs/image-understanding'',
     ''https://ai.google.dev/gemini-api/docs/video-understanding'',
     ''https://ai.google.dev/gemini-api/docs/audio'',
     ''https://ai.google.dev/gemini-api/docs/code-execution'',
     ''https://ai.google.dev/gemini-api/docs/grounding'']"

definition INITIAL_KNOWLEDGE_GROUPS :: "KnowledgeGroup list" where
  "INITIAL_KNOWLEDGE_GROUPS =
    [\<lparr>group_id = js ''gemini-overview'', group_name = js ''Gemini Docs Overview'',
      urls = GEMINI_DOCS_URLS, files = []\<rparr>,
     \<lparr>group_id = js ''model-capabilities'', group_name = js ''Model Capabilities'',
      urls = MODEL_CAPABILITIES_URLS, files = []\<rparr>]"

definition MAX_SOURCES :: nat where
  "MAX_SOURCES = 20"

text \<open>
  The four mutators pass a function to \<open>setKnowledgeGroups\<close>; each is modelled as that
  function, with the \<open>activeGroupId\<close> of the closure as an argument.
\<close>

definition handleAddUrl :: "jsstring \<Rightarrow> jsstring \<Rightarrow> KnowledgeGroup list \<Rightarrow> KnowledgeGroup list" where
  "handleAddUrl activeGroupId url prevGroups =
     map (\<lambda>group.
            if group_id group = activeGroupId then
              (if length (urls group) + length (files group) < MAX_SOURCES
                  \<and> url \<notin> set (urls group)
               then group\<lparr>urls := urls group @ [url]\<rparr>
               else group)
            else group) prevGroups"

definition handleRemoveUrl :: "jsstring \<Rightarrow> jsstring \<Rightarrow> KnowledgeGroup list \<Rightarrow> KnowledgeGroup list" where
  "handleRemoveUrl activeGroupId urlToRemove prevGroups =
     map (\<lambda>group.
            if group_id group = activeGroupId
            then group\<lparr>urls := filter (\<lambda>url. url \<noteq> urlToRemove) (urls group)\<rparr>
            else group) prevGroups"

definition uniqueFiles :: "ManagedFile list \<Rightarrow> ManagedFile list" where
  "uniqueFiles combinedFiles =
     filter_indexed
       (\<lambda>file index self. int index = findIndex (\<lambda>f. file_name f = file_name file) self)
       combinedFiles"

definition handleAddFiles :: "jsstring \<Rightarrow> ManagedFile list \<Rightarrow> KnowledgeGroup list \<Rightarrow> KnowledgeGroup list" where
  "handleAddFiles activeGroupId newFiles prevGroups =
     map (\<lambda>group.
            if group_id group = activeGroupId
            then group\<lparr>files := uniqueFiles (files group @ newFiles)\<rparr>
            else group) prevGroups"

definition handleRemoveFile :: "jsstring \<Rightarrow> jsstring \<Rightarrow> KnowledgeGroup list \<Rightarrow> KnowledgeGroup list" where
  "handleRemoveFile activeGroupId fileNameToRemove prevGroups =
     map (\<lambda>group.
            if group_id group = activeGroupId
            then group\<lparr>files := filter (\<lambda>file. file_name file \<noteq> fileNameToRemove) (files group)\<rparr>
            else group) prevGroups"

text \<open>\<open>knowledgeGroups.find(group => group.id === activeGroupId)\<close> and the two derived lists.\<close>

definition activeGroup :: "jsstring \<Rightarrow> KnowledgeGroup list \<Rightarrow> KnowledgeGroup option" where
  "activeGroup activeGroupId knowledgeGroups =
     find (\<lambda>group. group_id group = activeGroupId) knowledgeGroups"

definition currentUrls :: "jsstring \<Rightarrow> KnowledgeGroup list \<Rightarrow> jsstring list" where
  "currentUrls activeGroupId knowledgeGroups =
     (case activeGroup activeGroupId knowledgeGroups of
        Some g \<Rightarrow> urls g | None \<Rightarrow> [])"

definition currentFiles :: "jsstring \<Rightarrow> KnowledgeGroup list \<Rightarrow> ManagedFile list" where
  "currentFiles activeGroupId knowledgeGroups =
     (case activeGroup activeGroupId knowledgeGroups of
        Some g \<Rightarrow> files g | None \<Rightarrow> [])"


text \<open>
  What a mutator may do to one group: keep its id and name, and leave the group as it
  is unless its id is the active one.
\<close>

definition frame_ok :: "jsstring \<Rightarrow> KnowledgeGroup \<Rightarrow> KnowledgeGroup \<Rightarrow> bool" where
  "frame_ok active g g' \<longleftrightarrow>
     group_id g' = group_id g \<and> group_name g' = group_name g \<and>
     (group_id g \<noteq> active \<longrightarrow> g' = g)"


section \<open>Knowledge base manager (components/KnowledgeBaseManager.tsx)\<close>

text \<open>
  A file handed over by the browser, with what the two \<open>FileReader\<close> calls deliver for
  it: \<open>None\<close> stands for the reader firing \<open>onerror\<close>.
\<close>

type_synonym bytes = "nat list"

record BrowserFile =
  bf_name :: jsstring
  bf_text :: "jsstring option"
  bf_buffer :: "bytes option"

text \<open>
  The three parsing libraries are parameters of the model. \<open>mammoth_extractRawText\<close> and
  \<open>XLSX_read\<close> return \<open>None\<close> when the library throws. A workbook is its sheets in
  \<open>SheetNames\<close> order, each with the rows that \<open>sheet_to_json\<close> (\<open>header: 1\<close>) yields,
  the cells already rendered as \<open>join\<close> renders them. \<open>pdf_getDocument\<close> returns the
  message of the error when loading or reading a page fails, and otherwise the pages,
  each the list of its items (\<open>Some str\<close> for an item that has a \<open>str\<close>).
\<close>

record libs =
  mammoth_extractRawText :: "bytes \<Rightarrow> jsstring option"
  XLSX_read :: "bytes \<Rightarrow> (jsstring \<times> jsstring list list) list option"
  pdf_getDocument :: "bytes \<Rightarrow> jsstring + jsstring option list list"

datatype import_error =
    CouldNotRead jsstring
  | FailedToParsePDF jsstring jsstring
  | NotSupported jsstring
  | CouldNotExtract jsstring
  | FailedToProcess jsstring
  | ErrorReading jsstring

datatype ui_error =
    MaxSourcesReached nat
  | WouldExceedLimit nat nat
  | ImportErrors "import_error list"

definition fileExtension :: "jsstring \<Rightarrow> jsstring" where
  "fileExtension fname = toLowerCase (last (split 46 fname))"

definition buffer_extensions :: "jsstring list" where
  "buffer_extensions = map js [''docx'', ''xlsx'', ''pdf'']"

definition text_extensions :: "jsstring list" where
  "text_extensions =
     map js [''txt'', ''js'', ''ts'', ''jsx'', ''tsx'', ''json'', ''md'', ''html'', ''css'', ''py'']"

definition rejected_extensions :: "jsstring list" where
  "rejected_extensions = map js [''doc'', ''pptx'']"

definition xlsxText :: "(jsstring \<times> jsstring list list) list \<Rightarrow> jsstring" where
  "xlsxText workbook =
     concat (map (\<lambda>(sheetName, jsonData).
                    js ''Sheet: '' @ sheetName @ [10, 10] @
                    concat (map (\<lambda>row. if length row > 0 then join [9] row @ [10] else [])
                                jsonData) @
                    [10])
                 workbook)"

definition pdfText :: "jsstring option list list \<Rightarrow> jsstring" where
  "pdfText pages =
     concat (map (\<lambda>items.
                    join [32] (map (\<lambda>item. case item of Some str \<Rightarrow> str | None \<Rightarrow> []) items)
                    @ [10])
                 pages)"

text \<open>The end of \<open>reader.onload\<close>: resolve with the extracted text unless it is \<open>null\<close>.\<close>

definition resolve_text :: "jsstring \<Rightarrow> jsstring option \<Rightarrow> import_error + ManagedFile" where
  "resolve_text fname extractedText =
     (case extractedText of
        Some t \<Rightarrow> Inr \<lparr>file_name = fname, file_content = t\<rparr>
      | None \<Rightarrow> Inl (CouldNotExtract fname))"

text \<open>
  \<open>reader.onload\<close> after \<open>readAsArrayBuffer\<close>, which is used exactly for the extensions
  docx, xlsx and pdf. An \<open>ArrayBuffer\<close> is never falsy, so the \<open>!fileContent\<close> test passes.
\<close>

definition onload_buffer :: "libs \<Rightarrow> jsstring \<Rightarrow> jsstring \<Rightarrow> bytes \<Rightarrow> import_error + ManagedFile" where
  "onload_buffer L fname ext fileContent =
     (if ext = js ''docx'' then
        (case mammoth_extractRawText L fileContent of
           None \<Rightarrow> Inl (FailedToProcess fname)
         | Some v \<Rightarrow> resolve_text fname (Some v))
      else if ext = js ''xlsx'' then
        (case XLSX_read L fileContent of
           None \<Rightarrow> Inl (FailedToProcess fname)
         | Some workbook \<Rightarrow> resolve_text fname (Some (xlsxText workbook)))
      else
        (case pdf_getDocument L fileContent of
           Inl message \<Rightarrow> Inl (FailedToParsePDF fname message)
         | Inr pages \<Rightarrow> resolve_text fname (Some (pdfText pages))))"

text \<open>
  \<open>reader.onload\<close> after \<open>readAsText\<close>, used for every other extension: the empty string
  is falsy, the listed text formats and the \<open>default\<close> branch take the content as it
  is, doc and pptx are rejected.
\<close>

definition onload_text :: "jsstring \<Rightarrow> jsstring \<Rightarrow> jsstring \<Rightarrow> import_error + ManagedFile" where
  "onload_text fname ext fileContent =
     (if fileContent = [] then Inl (CouldNotRead fname)
      else if ext \<in> set text_extensions then resolve_text fname (Some fileContent)
      else if ext \<in> set rejected_extensions then Inl (NotSupported ext)
      else resolve_text fname (Some fileContent))"

datatype read_mode = AsArrayBuffer | AsText

definition read_mode_of :: "jsstring \<Rightarrow> read_mode" where
  "read_mode_of ext = (if ext \<in> set buffer_extensions then AsArrayBuffer else AsText)"

text \<open>One promise of \<open>readPromises\<close>, settled: \<open>Inl\<close> is a rejection.\<close>

definition processFile :: "libs \<Rightarrow> BrowserFile \<Rightarrow> import_error + ManagedFile" where
  "processFile L file =
     (let ext = fileExtension (bf_name file) in
      case read_mode_of ext of
        AsArrayBuffer \<Rightarrow>
          (case bf_buffer file of
             None \<Rightarrow> Inl (ErrorReading (bf_name file))
           | Some fileContent \<Rightarrow> onload_buffer L (bf_name file) ext fileContent)
      | AsText \<Rightarrow>
          (case bf_text file of
             None \<Rightarrow> Inl (ErrorReading (bf_name file))
           | Some fileContent \<Rightarrow> onload_text (bf_name file) ext fileContent))"

text \<open>
  What one run of \<open>handleFileChange\<close> does: the value of the \<open>error\<close> state afterwards,
  the files for which a reader was started, and the argument of the \<open>onAddFiles\<close> call
  when it is made.
\<close>

record file_change =
  fc_error :: "ui_error option"
  fc_read :: "BrowserFile list"
  fc_onAddFiles :: "ManagedFile list option"

definition totalSources :: "jsstring list \<Rightarrow> ManagedFile list \<Rightarrow> nat" where
  "totalSources urls_prop files_prop = length urls_prop + length files_prop"

definition filesToProcess :: "ManagedFile list \<Rightarrow> BrowserFile list \<Rightarrow> BrowserFile list" where
  "filesToProcess files_prop selectedFiles =
     filter (\<lambda>file. \<not> list_ex (\<lambda>existingFile. file_name existingFile = bf_name file) files_prop)
            selectedFiles"

definition handleFileChange ::
  "libs \<Rightarrow> jsstring list \<Rightarrow> ManagedFile list \<Rightarrow> nat \<Rightarrow> ui_error option \<Rightarrow> BrowserFile list
     \<Rightarrow> file_change" where
  "handleFileChange L urls_prop files_prop maxSources error selectedFiles =
     (if selectedFiles = [] then
        \<lparr>fc_error = error, fc_read = [], fc_onAddFiles = None\<rparr>
      else if totalSources urls_prop files_prop \<ge> maxSources then
        \<lparr>fc_error = Some (MaxSourcesReached maxSources), fc_read = [], fc_onAddFiles = None\<rparr>
      else
        (let pending = filesToProcess files_prop selectedFiles in
         if totalSources urls_prop files_prop + length pending > maxSources then
           \<lparr>fc_error = Some (WouldExceedLimit (length pending) maxSources),
            fc_read = [], fc_onAddFiles = None\<rparr>
         else
           (let results = map (processFile L) pending;
                successfulFiles = concat (map (\<lambda>r. case r of Inr v \<Rightarrow> [v] | Inl _ \<Rightarrow> []) results);
                errorMessages = concat (map (\<lambda>r. case r of Inl e \<Rightarrow> [e] | Inr _ \<Rightarrow> []) results)
            in \<lparr>fc_error = (if length errorMessages > 0 then Some (ImportErrors errorMessages)
                             else None),
                fc_read = pending,
                fc_onAddFiles = (if length successfulFiles > 0 then Some successfulFiles
                                 else None)\<rparr>)))"

text \<open>
  The knowledge state of \<open>App\<close> and the operations the knowledge base manager can apply
  to it. \<open>handleFileChange\<close> is asynchronous. It tests the count against the props of the
  render in which the files were selected (\<open>currentUrls\<close>, \<open>currentFiles\<close>,
  \<open>MAX_SOURCES\<close>), starts the readers and waits for them at
  \<^verbatim>\<open>await Promise.allSettled(readPromises)\<close>. Only when they have settled does it call
  \<open>onAddFiles\<close>, which is the \<open>handleAddFiles\<close> of that same render and so holds the
  \<open>activeGroupId\<close> of that render, while its updater acts on the groups of the moment of
  the call. An import is therefore two steps, the selection (\<open>ImportFiles\<close>) and the
  settling of the readers (\<open>ImportSettles\<close>), and any other operation may come between
  them. \<open>pendingImports\<close> holds the runs of \<open>handleFileChange\<close> that wait at the \<open>await\<close>
  and will call \<open>onAddFiles\<close>; a run that will not call it (rejected for its count, or
  without a file read with success) changes nothing when it resumes and is not kept.
\<close>

record import_request =
  ir_activeGroupId :: jsstring
  ir_successfulFiles :: "ManagedFile list"

record kb_state =
  knowledgeGroups :: "KnowledgeGroup list"
  activeGroupId :: jsstring
  pendingImports :: "import_request list"

datatype kb_op =
    AddUrl jsstring
  | RemoveUrl jsstring
  | ImportFiles "BrowserFile list"
  | ImportSettles nat
  | RemoveFile jsstring
  | SetGroupId jsstring

definition remove_nth :: "nat \<Rightarrow> 'a list \<Rightarrow> 'a list" where
  "remove_nth i xs = take i xs @ drop (Suc i) xs"

text \<open>
  \<open>handleFileChange\<close> up to its \<open>await\<close>, on the props that \<open>App\<close> passes: the call of
  \<open>onAddFiles\<close> that it will make, if any, with the \<open>activeGroupId\<close> of this render.
\<close>

definition handleFileChange_awaits ::
  "libs \<Rightarrow> BrowserFile list \<Rightarrow> 'a kb_state_scheme \<Rightarrow> import_request list" where
  "handleFileChange_awaits L selectedFiles st =
     (case fc_onAddFiles
             (handleFileChange L
                (currentUrls (activeGroupId st) (knowledgeGroups st))
                (currentFiles (activeGroupId st) (knowledgeGroups st))
                MAX_SOURCES None selectedFiles) of
        None \<Rightarrow> []
      | Some successfulFiles \<Rightarrow>
          [\<lparr>ir_activeGroupId = activeGroupId st, ir_successfulFiles = successfulFiles\<rparr>])"

text \<open>
  The rest of it, run when the readers have settled: \<open>onAddFiles(successfulFiles)\<close>, that
  is the updater of \<open>handleAddFiles\<close> applied to the groups of that moment. It tests no
  count.
\<close>

definition handleFileChange_settled ::
  "import_request \<Rightarrow> KnowledgeGroup list \<Rightarrow> KnowledgeGroup list" where
  "handleFileChange_settled request prevGroups =
     handleAddFiles (ir_activeGroupId request) (ir_successfulFiles request) prevGroups"

text \<open>
  One operation. A settling names the pending import by its position and does nothing
  when there is no such import.
\<close>

fun kb_step :: "libs \<Rightarrow> 'a kb_state_scheme \<Rightarrow> kb_op \<Rightarrow> 'a kb_state_scheme" where
  "kb_step L st (AddUrl url) =
     st\<lparr>knowledgeGroups := handleAddUrl (activeGroupId st) url (knowledgeGroups st)\<rparr>"
| "kb_step L st (RemoveUrl url) =
     st\<lparr>knowledgeGroups := handleRemoveUrl (activeGroupId st) url (knowledgeGroups st)\<rparr>"
| "kb_step L st (ImportFiles selectedFiles) =
     st\<lparr>pendingImports := pendingImports st @ handleFileChange_awaits L selectedFiles st\<rparr>"
| "kb_step L st (ImportSettles i) =
     (if i < length (pendingImports st)
      then st\<lparr>knowledgeGroups :=
                handleFileChange_settled (pendingImports st ! i) (knowledgeGroups st),
              pendingImports := remove_nth i (pendingImports st)\<rparr>
      else st)"
| "kb_step L st (RemoveFile fname) =
     st\<lparr>knowledgeGroups := handleRemoveFile (activeGroupId st) fname (knowledgeGroups st)\<rparr>"
| "kb_step L st (SetGroupId gid) = st\<lparr>activeGroupId := gid\<rparr>"

text \<open>The state that \<open>useState\<close> sets up, no import waiting.\<close>

definition kb_init :: kb_state where
  "kb_init = \<lparr>knowledgeGroups = INITIAL_KNOWLEDGE_GROUPS,
              activeGroupId = group_id (hd INITIAL_KNOWLEDGE_GROUPS),
              pendingImports = []\<rparr>"

definition kb_run :: "libs \<Rightarrow> kb_op list \<Rightarrow> kb_state" where
  "kb_run L ops = foldl (kb_step L) kb_init ops"

text \<open>
  De-duplication as the specification words it: the first occurrence of each name
  wins. The source computes it through \<open>filter\<close> and \<open>findIndex\<close> (\<open>uniqueFiles\<close>).
\<close>

fun dedupByName :: "ManagedFile list \<Rightarrow> ManagedFile list" where
  "dedupByName [] = []"
| "dedupByName (f # fs) = f # dedupByName (filter (\<lambda>g. file_name g \<noteq> file_name f) fs)"

text \<open>The same list computed with the set of names seen so far.\<close>

fun firstByName :: "jsstring set \<Rightarrow> ManagedFile list \<Rightarrow> ManagedFile list" where
  "firstByName seen [] = []"
| "firstByName seen (f # fs) =
     (if file_name f \<in> seen then firstByName seen fs
      else f # firstByName (insert (file_name f) seen) fs)"


section \<open>Chat data (types.ts)\<close>

datatype MessageSender = USER | MODEL | SYSTEM

record UrlContextMetadataItem =
  retrievedUrl :: jsstring
  urlRetrievalStatus :: jsstring

text \<open>An optional field is an \<open>option\<close>: \<open>None\<close> when the object does not have it.\<close>

record ChatMessage =
  msg_id :: jsstring
  msg_text :: jsstring
  msg_sender :: MessageSender
  msg_timestamp :: nat
  msg_isLoading :: "bool option"
  msg_urlContext :: "UrlContextMetadataItem list option"
  msg_images :: "jsstring list option"

record AttachedImage =
  img_name :: jsstring
  img_dataUrl :: jsstring
  img_type :: jsstring

record GeminiResponse =
  resp_text :: jsstring
  resp_urlContextMetadata :: "UrlContextMetadataItem list option"

text \<open>
  How a promise settles. A rejection carries the \<open>message\<close> of its reason, the empty
  string when the reason has none.
\<close>

datatype 'a settled = Fulfilled 'a | Rejected jsstring

text \<open>The decimal digits of a clock reading, as a template literal renders it.\<close>

fun decimal :: "nat \<Rightarrow> jsstring" where
  "decimal n = (if n < 10 then [48 + n] else decimal (n div 10) @ [48 + n mod 10])"

declare decimal.simps [simp del]

text \<open>\<open>s.includes(sub)\<close> on strings.\<close>

fun includes_str :: "jsstring \<Rightarrow> jsstring \<Rightarrow> bool" where
  "includes_str [] sub = (sub = [])"
| "includes_str (c # cs) sub = (take (length sub) (c # cs) = sub \<or> includes_str cs sub)"


section \<open>JSON values and the two built-ins the program calls\<close>

text \<open>
  A number keeps its literal text: the program never looks at the value of one.
\<close>

datatype json =
    JNull
  | JBool bool
  | JNumber jsstring
  | JString jsstring
  | JArray "json list"
  | JObject "(jsstring \<times> json) list"

definition hex_digit :: "nat \<Rightarrow> nat" where
  "hex_digit d = (if d < 10 then 48 + d else 87 + d)"

text \<open>
  \<open>JSON.stringify\<close> on a string: quotes, with the quote, the backslash and the control
  characters escaped. (The escapes of lone surrogates are left out; the one text the
  program serialises is ASCII.)
\<close>

definition quote_char :: "nat \<Rightarrow> jsstring" where
  "quote_char c =
     (if c = 34 then [92, 34]
      else if c = 92 then [92, 92]
      else if c = 8 then [92, 98]
      else if c = 12 then [92, 102]
      else if c = 10 then [92, 110]
      else if c = 13 then [92, 114]
      else if c = 9 then [92, 116]
      else if c < 32 then [92, 117, 48, 48, hex_digit (c div 16), hex_digit (c mod 16)]
      else [c])"

definition quote :: "jsstring \<Rightarrow> jsstring" where
  "quote s = [34] @ concat (map quote_char s) @ [34]"

fun JSON_stringify :: "json \<Rightarrow> jsstring"
  and stringify_elements :: "json list \<Rightarrow> jsstring list"
  and stringify_members :: "(jsstring \<times> json) list \<Rightarrow> jsstring list" where
  "JSON_stringify JNull = js ''null''"
| "JSON_stringify (JBool b) = (if b then js ''true'' else js ''false'')"
| "JSON_stringify (JNumber literal) = literal"
| "JSON_stringify (JString s) = quote s"
| "JSON_stringify (JArray xs) = [91] @ join [44] (stringify_elements xs) @ [93]"
| "JSON_stringify (JObject kvs) = [123] @ join [44] (stringify_members kvs) @ [125]"
| "stringify_elements [] = []"
| "stringify_elements (x # xs) = JSON_stringify x # stringify_elements xs"
| "stringify_members [] = []"
| "stringify_members ((k, v) # kvs) = (quote k @ [58] @ JSON_stringify v) # stringify_members kvs"

text \<open>
  A reader for JSON texts, standing for \<open>JSON.parse\<close> in the closed examples: \<open>None\<close> is
  a \<open>SyntaxError\<close>. The functions of the program take the parser as a parameter, so the
  general statements hold for any parser.
\<close>

definition json_ws :: "nat \<Rightarrow> bool" where
  "json_ws c \<longleftrightarrow> c = 32 \<or> c = 9 \<or> c = 10 \<or> c = 13"

definition is_digit :: "nat \<Rightarrow> bool" where
  "is_digit c \<longleftrightarrow> 48 \<le> c \<and> c \<le> 57"

definition hex_value :: "nat \<Rightarrow> nat option" where
  "hex_value c =
     (if 48 \<le> c \<and> c \<le> 57 then Some (c - 48)
      else if 97 \<le> c \<and> c \<le> 102 then Some (c - 87)
      else if 65 \<le> c \<and> c \<le> 70 then Some (c - 55)
      else None)"

text \<open>The characters of a string after its opening quote, up to the closing one.\<close>

fun parse_chars :: "jsstring \<Rightarrow> (jsstring \<times> jsstring) option" where
  "parse_chars [] = None"
| "parse_chars (c # cs) =
     (if c = 34 then Some ([], cs)
      else if c < 32 then None
      else if c = 92 then
        (case cs of
           [] \<Rightarrow> None
         | e # es \<Rightarrow>
             (if e = 117 then
                (case es of
                   h1 # h2 # h3 # h4 # rest \<Rightarrow>
                     (case (hex_value h1, hex_value h2, hex_value h3, hex_value h4) of
                        (Some a, Some b, Some c', Some d) \<Rightarrow>
                          map_option (\<lambda>(s, r). ((4096 * a + 256 * b + 16 * c' + d) # s, r))
                                     (parse_chars rest)
                      | _ \<Rightarrow> None)
                 | _ \<Rightarrow> None)
              else
                (case (if e = 34 then Some 34 else if e = 92 then Some 92
                       else if e = 47 then Some 47 else if e = 98 then Some 8
                       else if e = 102 then Some 12 else if e = 110 then Some 10
                       else if e = 114 then Some 13 else if e = 116 then Some (9::nat)
                       else None) of
                   None \<Rightarrow> None
                 | Some u \<Rightarrow> map_option (\<lambda>(s, r). (u # s, r)) (parse_chars es))))
      else map_option (\<lambda>(s, r). (c # s, r)) (parse_chars cs))"

text \<open>
  A number: an optional minus, an integer part without a leading zero, an optional
  fraction and an optional exponent. The result is the literal and the rest.
\<close>

definition parse_number :: "jsstring \<Rightarrow> (jsstring \<times> jsstring) option" where
  "parse_number s =
     (let sign = takeWhile (\<lambda>c. c = 45) (take 1 s);
          s1 = drop (length sign) s;
          int_part = takeWhile is_digit s1;
          s2 = drop (length int_part) s1;
          frac = (case s2 of
                    c # r \<Rightarrow> if c = 46 then c # takeWhile is_digit r else []
                  | [] \<Rightarrow> []);
          s3 = drop (length frac) s2;
          exp_sign = (case s3 of
                        c # r \<Rightarrow>
                          (if c = 101 \<or> c = 69
                           then c # takeWhile (\<lambda>d. d = 43 \<or> d = 45) (take 1 r) else [])
                      | [] \<Rightarrow> []);
          exp_digits = (if exp_sign = [] then []
                        else takeWhile is_digit (drop (length exp_sign) s3));
          s4 = drop (length exp_sign + length exp_digits) s3
      in if int_part = [] \<or> (length int_part > 1 \<and> hd int_part = 48) then None
         else if length frac = 1 then None
         else if exp_sign \<noteq> [] \<and> exp_digits = [] then None
         else Some (sign @ int_part @ frac @ exp_sign @ exp_digits, s4))"

text \<open>
  Values, array elements and object members, each given the reader \<open>rec\<close> for what is
  nested inside. The elements of an array come back as a \<open>JArray\<close>, the members of an
  object as a \<open>JObject\<close>.
\<close>

datatype parse_kind = PValue | PElements | PMembers

definition value_body ::
  "(parse_kind \<Rightarrow> jsstring \<Rightarrow> (json \<times> jsstring) option) \<Rightarrow> jsstring \<Rightarrow> (json \<times> jsstring) option" where
  "value_body rec s =
     (case dropWhile json_ws s of
        [] \<Rightarrow> None
      | c # cs \<Rightarrow>
          (if c = 123 then
             (case dropWhile json_ws cs of
                [] \<Rightarrow> None
              | d # ds \<Rightarrow> if d = 125 then Some (JObject [], ds) else rec PMembers (d # ds))
           else if c = 91 then
             (case dropWhile json_ws cs of
                [] \<Rightarrow> None
              | d # ds \<Rightarrow> if d = 93 then Some (JArray [], ds) else rec PElements (d # ds))
           else if c = 34 then map_option (\<lambda>(str, r). (JString str, r)) (parse_chars cs)
           else if take 4 (c # cs) = js ''true'' then Some (JBool True, drop 4 (c # cs))
           else if take 5 (c # cs) = js ''false'' then Some (JBool False, drop 5 (c # cs))
           else if take 4 (c # cs) = js ''null'' then Some (JNull, drop 4 (c # cs))
           else map_option (\<lambda>(literal, r). (JNumber literal, r)) (parse_number (c # cs))))"

definition elements_body ::
  "(parse_kind \<Rightarrow> jsstring \<Rightarrow> (json \<times> jsstring) option) \<Rightarrow> jsstring \<Rightarrow> (json \<times> jsstring) option" where
  "elements_body rec s =
     (case rec PValue s of
        None \<Rightarrow> None
      | Some (x, r) \<Rightarrow>
          (case dropWhile json_ws r of
             [] \<Rightarrow> None
           | c # cs \<Rightarrow>
               if c = 93 then Some (JArray [x], cs)
               else if c = 44 then
                 (case rec PElements cs of
                    Some (JArray xs, r') \<Rightarrow> Some (JArray (x # xs), r')
                  | _ \<Rightarrow> None)
               else None))"

definition members_body ::
  "(parse_kind \<Rightarrow> jsstring \<Rightarrow> (json \<times> jsstring) option) \<Rightarrow> jsstring \<Rightarrow> (json \<times> jsstring) option" where
  "members_body rec s =
     (case dropWhile json_ws s of
        [] \<Rightarrow> None
      | q # qs \<Rightarrow>
          if q \<noteq> 34 then None
          else
            (case parse_chars qs of
               None \<Rightarrow> None
             | Some (k, r) \<Rightarrow>
                 (case dropWhile json_ws r of
                    [] \<Rightarrow> None
                  | c # cs \<Rightarrow>
                      if c \<noteq> 58 then None
                      else
                        (case rec PValue cs of
                           None \<Rightarrow> None
                         | Some (v, r') \<Rightarrow>
                             (case dropWhile json_ws r' of
                                [] \<Rightarrow> None
                              | e # es \<Rightarrow>
                                  if e = 125 then Some (JObject [(k, v)], es)
                                  else if e = 44 then
                                    (case rec PMembers es of
                                       Some (JObject kvs, r'') \<Rightarrow> Some (JObject ((k, v) # kvs), r'')
                                     | _ \<Rightarrow> None)
                                  else None)))))"

text \<open>
  The first argument bounds the number of nested calls; \<open>JSON_parse\<close> starts with more
  than a text of that length can use.
\<close>

primrec parse_json :: "nat \<Rightarrow> parse_kind \<Rightarrow> jsstring \<Rightarrow> (json \<times> jsstring) option" where
  "parse_json 0 = (\<lambda>kind s. None)"
| "parse_json (Suc n) =
     (\<lambda>kind s. case kind of
        PValue \<Rightarrow> value_body (parse_json n) s
      | PElements \<Rightarrow> elements_body (parse_json n) s
      | PMembers \<Rightarrow> members_body (parse_json n) s)"

definition JSON_parse :: "jsstring \<Rightarrow> json option" where
  "JSON_parse s =
     (case parse_json (2 * length s + 2) PValue s of
        None \<Rightarrow> None
      | Some (v, r) \<Rightarrow> if dropWhile json_ws r = [] then Some v else None)"

text \<open>
  \<open>parsed.suggestions\<close> on a parsed value: only an object has members, and of two
  members with the same key \<open>JSON.parse\<close> keeps the later one.
\<close>

definition property_of :: "jsstring \<Rightarrow> json \<Rightarrow> json option" where
  "property_of key v = (case v of JObject kvs \<Rightarrow> map_of (rev kvs) key | _ \<Rightarrow> None)"


section \<open>The fence pattern of the suggestion reader\<close>

text \<open>
  The pattern is \<^verbatim>\<open>/^```(\w*)?\s*\n?(.*?)\n?\s*```$/s\<close>. A backtracking matcher tries the
  alternatives of each quantifier in its order of preference and gives the rest of the
  input to the continuation \<open>k\<close>, which is the remainder of the pattern; the first
  alternative for which \<open>k\<close> succeeds is the match.

  A greedy star takes as many characters of the class as there are and gives them back
  one by one.
\<close>

fun star_greedy :: "(nat \<Rightarrow> bool) \<Rightarrow> jsstring \<Rightarrow> (jsstring \<Rightarrow> 'r option) \<Rightarrow> 'r option" where
  "star_greedy p [] k = k []"
| "star_greedy p (c # cs) k =
     (if p c then (case star_greedy p cs k of Some r \<Rightarrow> Some r | None \<Rightarrow> k (c # cs))
      else k (c # cs))"

text \<open>A greedy optional character is taken first and skipped second.\<close>

definition opt_greedy :: "nat \<Rightarrow> jsstring \<Rightarrow> (jsstring \<Rightarrow> 'r option) \<Rightarrow> 'r option" where
  "opt_greedy ch s k =
     (case s of
        [] \<Rightarrow> k s
      | c # cs \<Rightarrow>
          if c = ch then (case k cs of Some r \<Rightarrow> Some r | None \<Rightarrow> k s) else k s)"

text \<open>
  The lazy group \<^verbatim>\<open>(.*?)\<close> with the flag \<open>s\<close>: any characters, as few as possible. The
  continuation receives the captured text and the rest.
\<close>

fun star_lazy :: "jsstring \<Rightarrow> jsstring \<Rightarrow> (jsstring \<Rightarrow> jsstring \<Rightarrow> 'r option) \<Rightarrow> 'r option" where
  "star_lazy captured [] k = k captured []"
| "star_lazy captured (c # cs) k =
     (case k captured (c # cs) of
        Some r \<Rightarrow> Some r
      | None \<Rightarrow> star_lazy (captured @ [c]) cs k)"

definition fence :: jsstring where
  "fence = [96, 96, 96]"

text \<open>
  \<open>jsonStr.match(fenceRegex)\<close>, reduced to what the program reads of the result:
  \<open>None\<close> when there is no match, otherwise the text of group 2. Group 1 is optional
  around a star; the positions it can end at, and their order, are those of the star,
  so it is matched as \<^verbatim>\<open>\w*\<close>.
\<close>

definition fenceRegex_group2 :: "jsstring \<Rightarrow> jsstring option" where
  "fenceRegex_group2 s =
     (if take 3 s = fence then
        star_greedy is_word (drop 3 s) (\<lambda>r1.
        star_greedy is_space r1 (\<lambda>r2.
        opt_greedy 10 r2 (\<lambda>r3.
        star_lazy [] r3 (\<lambda>group2 r4.
        opt_greedy 10 r4 (\<lambda>r5.
        star_greedy is_space r5 (\<lambda>r6.
        if r6 = fence then Some group2 else None))))))
      else None)"

text \<open>
  The reading of a suggestion response in \<open>fetchAndSetInitialSuggestions\<close>: the array
  of suggestions before \<open>slice(0, 4)\<close>, and the system message that is appended, if any.
\<close>

datatype suggestion_problem = UnexpectedFormat | ParseError

definition parseSuggestions ::
  "(jsstring \<Rightarrow> json option) \<Rightarrow> jsstring \<Rightarrow> jsstring list \<times> suggestion_problem option" where
  "parseSuggestions parse text =
     (if text = [] then ([], None)
      else
        (let trimmed = trim text;
             jsonStr = (case fenceRegex_group2 trimmed of
                          None \<Rightarrow> trimmed
                        | Some group2 \<Rightarrow> if group2 \<noteq> [] then trim group2 else trimmed)
         in case parse jsonStr of
              None \<Rightarrow> ([], Some ParseError)
            | Some parsed \<Rightarrow>
                (case property_of (js ''suggestions'') parsed of
                   Some (JArray xs) \<Rightarrow>
                     (concat (map (\<lambda>x. case x of JString str \<Rightarrow> [str] | _ \<Rightarrow> []) xs), None)
                 | _ \<Rightarrow> ([], Some UnexpectedFormat))))"

text \<open>The text \<^verbatim>\<open>```tag\<newline>J\<newline>```\<close>.\<close>

definition fenced :: "jsstring \<Rightarrow> jsstring \<Rightarrow> jsstring" where
  "fenced tag payload = fence @ tag @ [10] @ payload @ [10] @ fence"


section \<open>The service (services/geminiService.ts)\<close>

text \<open>
  The remote API is a parameter: a function from the request to the error it throws or
  the text it returns. Each service function returns how its promise settles together
  with the requests it has sent.
\<close>

record gen_request =
  gr_model :: jsstring
  gr_prompt :: jsstring
  gr_json_only :: bool

record remote_error =
  re_is_Error :: bool
  re_message :: jsstring

definition truthy :: "jsstring option \<Rightarrow> bool" where
  "truthy v \<longleftrightarrow> (case v of None \<Rightarrow> False | Some s \<Rightarrow> s \<noteq> [])"

definition suggestions_prompt :: "jsstring list \<Rightarrow> ManagedFile list \<Rightarrow> jsstring" where
  "suggestions_prompt urls_arg files_arg =
     (let urlList = (if length urls_arg > 0
                     then [10] @ js ''Relevant URLs:'' @ [10] @ join [10] urls_arg else []);
          filePreamble =
            (if length files_arg > 0
             then [10] @ js ''File Contents:'' @ [10] @
                  join [10] (map (\<lambda>f. js ''File: '' @ file_name f @ [10] @ js ''Content: '' @
                                       take 500 (file_content f) @ js ''...'') files_arg)
             else [])
      in js ''Based on the content of the following documentation URLs and/or file contents, provide 3-4 concise and actionable questions a developer might ask to explore these documents. These questions should be suitable as quick-start prompts. Return ONLY a JSON object with a key \"suggestions\" containing an array of these question strings. For example: {\"suggestions\": [\"What are the rate limits?\", \"How do I get an API key?\", \"Explain model X.\"]}''
         @ [10] @ urlList @ [10] @ filePreamble)"

definition suggestions_error :: "remote_error \<Rightarrow> jsstring" where
  "suggestions_error error =
     (if re_is_Error error then
        (if re_message error \<noteq> [] \<and> includes_str (re_message error) (js ''API key not valid'')
         then js ''Invalid API Key for suggestions. Please check your GEMINI_API_KEY environment variable.''
         else if re_message error \<noteq> []
                 \<and> includes_str (re_message error)
                      (js ''Tool use with a response mime type: 'application/json' is unsupported'')
         then js ''Configuration error: Cannot use tools with JSON response type for suggestions. This should be fixed in the code.''
         else js ''Failed to get initial suggestions from AI: '' @ re_message error)
      else js ''Failed to get initial suggestions from AI due to an unknown error.'')"

definition getInitialSuggestions ::
  "jsstring option \<Rightarrow> (gen_request \<Rightarrow> remote_error + jsstring) \<Rightarrow>
   jsstring list \<Rightarrow> ManagedFile list \<Rightarrow> jsstring \<Rightarrow> GeminiResponse settled \<times> gen_request list" where
  "getInitialSuggestions API_KEY remote urls_arg files_arg modelName =
     (if length urls_arg = 0 \<and> length files_arg = 0 then
        (Fulfilled
           \<lparr>resp_text =
              JSON_stringify
                (JObject [(js ''suggestions'',
                           JArray [JString (js ''Add URLs or import files to get suggestions.'')])]),
            resp_urlContextMetadata = None\<rparr>,
         [])
      else if \<not> truthy API_KEY then
        (Rejected (js ''Gemini API Key not configured. Set process.env.API_KEY.''), [])
      else
        (let request = \<lparr>gr_model = modelName,
                         gr_prompt = suggestions_prompt urls_arg files_arg,
                         gr_json_only = True\<rparr>
         in case remote request of
              Inr text \<Rightarrow> (Fulfilled \<lparr>resp_text = text, resp_urlContextMetadata = None\<rparr>, [request])
            | Inl error \<Rightarrow> (Rejected (suggestions_error error), [request])))"


section \<open>The conversation orchestrator (App.tsx)\<close>

definition AVAILABLE_MODELS :: "(jsstring \<times> jsstring) list" where
  "AVAILABLE_MODELS =
     [(js ''gemini-2.5-pro'', js ''Gemini 2.5 Pro''),
      (js ''gemini-2.5-flash'', js ''Gemini 2.5 Flash''),
      (js ''gemini-2.5-flash-lite'', js ''Gemini 2.5 Flash-Lite'')]"

text \<open>The state of \<open>App\<close>: the knowledge state and the state of the conversation.\<close>

record app_state = kb_state +
  selectedModel :: jsstring
  chatMessages :: "ChatMessage list"
  isLoading :: bool
  isFetchingSuggestions :: bool
  initialQuerySuggestions :: "jsstring list"

text \<open>
  A call of \<open>generateContentWithUrlContext\<close> that has not settled: its arguments and the
  \<open>modelPlaceholderMessage\<close> that the rest of \<open>handleSendMessage\<close> holds.
\<close>

record send_request =
  sr_placeholder :: ChatMessage
  sr_query :: jsstring
  sr_urls :: "jsstring list"
  sr_files :: "ManagedFile list"
  sr_model :: jsstring
  sr_images :: "AttachedImage list"

text \<open>A call of \<open>getInitialSuggestions\<close> that has not settled.\<close>

record fetch_request =
  fr_urls :: "jsstring list"
  fr_files :: "ManagedFile list"
  fr_model :: jsstring

definition system_message :: "jsstring \<Rightarrow> nat \<Rightarrow> jsstring \<Rightarrow> ChatMessage" where
  "system_message prefix now text =
     \<lparr>msg_id = prefix @ decimal now, msg_text = text, msg_sender = SYSTEM,
      msg_timestamp = now, msg_isLoading = None, msg_urlContext = None, msg_images = None\<rparr>"

definition userMessage :: "nat \<Rightarrow> jsstring \<Rightarrow> AttachedImage list \<Rightarrow> ChatMessage" where
  "userMessage now query images =
     \<lparr>msg_id = js ''user-'' @ decimal now, msg_text = query, msg_sender = USER,
      msg_timestamp = now, msg_isLoading = None, msg_urlContext = None,
      msg_images = Some (map img_dataUrl images)\<rparr>"

definition modelPlaceholderMessage :: "nat \<Rightarrow> ChatMessage" where
  "modelPlaceholderMessage now =
     \<lparr>msg_id = js ''model-response-'' @ decimal now, msg_text = js ''Thinking...'',
      msg_sender = MODEL, msg_timestamp = now, msg_isLoading = Some True,
      msg_urlContext = None, msg_images = None\<rparr>"

text \<open>
  \<open>handleSendMessage\<close> up to its \<open>await\<close>. The environment gives \<open>process.env.API_KEY\<close>
  and the reading of the clock, taken as one reading for the whole turn. The result is
  the new state and the remote call that was started, if any.
\<close>

definition handleSendMessage ::
  "jsstring option \<Rightarrow> nat \<Rightarrow> jsstring \<Rightarrow> AttachedImage list \<Rightarrow> 'a app_state_scheme
     \<Rightarrow> 'a app_state_scheme \<times> send_request option" where
  "handleSendMessage apiKey now query images st =
     (if (trim query = [] \<and> length images = 0) \<or> isLoading st \<or> isFetchingSuggestions st
      then (st, None)
      else if \<not> truthy apiKey then
        (st\<lparr>chatMessages := chatMessages st @
              [system_message (js ''error-apikey-'') now
                 (js ''ERROR: API Key (process.env.API_KEY) is not configured. Please set it up to send messages.'')]\<rparr>,
         None)
      else
        (st\<lparr>isLoading := True, initialQuerySuggestions := [],
            chatMessages := chatMessages st @
              [userMessage now query images, modelPlaceholderMessage now]\<rparr>,
         Some \<lparr>sr_placeholder = modelPlaceholderMessage now, sr_query = query,
               sr_urls = currentUrls (activeGroupId st) (knowledgeGroups st),
               sr_files = currentFiles (activeGroupId st) (knowledgeGroups st),
               sr_model = selectedModel st, sr_images = images\<rparr>))"

text \<open>The message that takes the place of the placeholder.\<close>

definition terminal_message :: "ChatMessage \<Rightarrow> GeminiResponse settled \<Rightarrow> ChatMessage" where
  "terminal_message placeholder result =
     (case result of
        Fulfilled response \<Rightarrow>
          placeholder\<lparr>msg_text := (if resp_text response \<noteq> [] then resp_text response
                                    else js ''I received an empty response.''),
                      msg_isLoading := Some False,
                      msg_urlContext := resp_urlContextMetadata response\<rparr>
      | Rejected message \<Rightarrow>
          placeholder\<lparr>msg_text := js ''Error: '' @
                                    (if message \<noteq> [] then message
                                     else js ''Failed to get response from AI.''),
                      msg_sender := SYSTEM,
                      msg_isLoading := Some False\<rparr>)"

text \<open>
  The rest of \<open>handleSendMessage\<close>, run when the remote call settles: the \<open>try\<close> or the
  \<open>catch\<close> branch, then \<open>finally\<close>. The updates are functional, so they act on the state
  of that moment.
\<close>

definition handleSendMessage_settled ::
  "send_request \<Rightarrow> GeminiResponse settled \<Rightarrow> 'a app_state_scheme \<Rightarrow> 'a app_state_scheme" where
  "handleSendMessage_settled request result st =
     st\<lparr>chatMessages :=
          map (\<lambda>msg. if msg_id msg = msg_id (sr_placeholder request)
                      then terminal_message (sr_placeholder request) result
                      else msg)
              (chatMessages st),
        isLoading := False\<rparr>"

text \<open>\<open>fetchAndSetInitialSuggestions\<close> up to its \<open>await\<close>.\<close>

definition fetchAndSetInitialSuggestions ::
  "jsstring list \<Rightarrow> ManagedFile list \<Rightarrow> jsstring \<Rightarrow> 'a app_state_scheme
     \<Rightarrow> 'a app_state_scheme \<times> fetch_request option" where
  "fetchAndSetInitialSuggestions urls_arg files_arg model st =
     (if length urls_arg = 0 \<and> length files_arg = 0
      then (st\<lparr>initialQuerySuggestions := []\<rparr>, None)
      else (st\<lparr>isFetchingSuggestions := True, initialQuerySuggestions := []\<rparr>,
            Some \<lparr>fr_urls = urls_arg, fr_files = files_arg, fr_model = model\<rparr>))"

text \<open>The rest of it, run when \<open>getInitialSuggestions\<close> settles.\<close>

definition fetchAndSetInitialSuggestions_settled ::
  "(jsstring \<Rightarrow> json option) \<Rightarrow> nat \<Rightarrow> GeminiResponse settled \<Rightarrow> 'a app_state_scheme
     \<Rightarrow> 'a app_state_scheme" where
  "fetchAndSetInitialSuggestions_settled parse now result st =
     (case result of
        Fulfilled response \<Rightarrow>
          (case parseSuggestions parse (resp_text response) of
             (suggestionsArray, problem) \<Rightarrow>
               st\<lparr>chatMessages := chatMessages st @
                     (case problem of
                        None \<Rightarrow> []
                      | Some UnexpectedFormat \<Rightarrow>
                          [system_message (js ''sys-err-suggestion-fmt-'') now
                             (js ''Received suggestions in an unexpected format.'')]
                      | Some ParseError \<Rightarrow>
                          [system_message (js ''sys-err-suggestion-parse-'') now
                             (js ''Error parsing suggestions from AI.'')]),
                  initialQuerySuggestions := take 4 suggestionsArray,
                  isFetchingSuggestions := False\<rparr>)
      | Rejected message \<Rightarrow>
          st\<lparr>chatMessages := chatMessages st @
                [system_message (js ''sys-err-suggestion-fetch-'') now
                   (js ''Error fetching suggestions: '' @
                    (if message \<noteq> [] then message
                     else js ''Failed to fetch initial suggestions.''))],
             isFetchingSuggestions := False\<rparr>)"

text \<open>The effect on \<open>[activeGroupId, knowledgeGroups]\<close>: the transcript becomes the welcome.\<close>

definition welcomeEffect :: "jsstring option \<Rightarrow> nat \<Rightarrow> 'a app_state_scheme \<Rightarrow> 'a app_state_scheme" where
  "welcomeEffect apiKey now st =
     st\<lparr>chatMessages :=
          [system_message (js ''system-welcome-'' @ activeGroupId st @ js ''-'') now
             (if \<not> truthy apiKey
              then js ''ERROR: Gemini API Key (process.env.API_KEY) is not configured. Please set this environment variable to use the application.''
              else js ''Welcome to Documentation Browser! You're currently browsing content from: \"''
                   @ (case activeGroup (activeGroupId st) (knowledgeGroups st) of
                        None \<Rightarrow> js ''None''
                      | Some g \<Rightarrow> if group_name g \<noteq> [] then group_name g else js ''None'')
                   @ js ''\". Just ask me questions, or try one of the suggestions below to get started'')]\<rparr>"

text \<open>
  The effect on \<open>[currentUrls, currentFiles, selectedModel]\<close>: it starts a suggestion
  fetch whatever the two flags are.
\<close>

definition suggestionsEffect ::
  "jsstring option \<Rightarrow> 'a app_state_scheme \<Rightarrow> 'a app_state_scheme \<times> fetch_request option" where
  "suggestionsEffect apiKey st =
     (if (length (currentUrls (activeGroupId st) (knowledgeGroups st)) > 0
          \<or> length (currentFiles (activeGroupId st) (knowledgeGroups st)) > 0)
         \<and> truthy apiKey
      then fetchAndSetInitialSuggestions
             (currentUrls (activeGroupId st) (knowledgeGroups st))
             (currentFiles (activeGroupId st) (knowledgeGroups st))
             (selectedModel st) st
      else (st\<lparr>initialQuerySuggestions := []\<rparr>, None))"


section \<open>The chat input (components/ChatInterface.tsx)\<close>

record chat_input =
  userQuery :: jsstring
  attachedImages :: "AttachedImage list"
  isManuallyExpanded :: bool

text \<open>
  \<open>handleSend\<close>, given the \<open>isLoading\<close> prop: the new state of the input and the
  arguments of the \<open>onSendMessage\<close> call when it is made.
\<close>

definition handleSend ::
  "bool \<Rightarrow> chat_input \<Rightarrow> chat_input \<times> (jsstring \<times> AttachedImage list) option" where
  "handleSend isLoading_prop ci =
     (let query = trim (userQuery ci) in
      if (query = [] \<and> length (attachedImages ci) = 0) \<or> isLoading_prop then (ci, None)
      else (\<lparr>userQuery = [], attachedImages = [], isManuallyExpanded = False\<rparr>,
            Some (query, attachedImages ci)))"


section \<open>The application as a transition system\<close>

text \<open>
  The state of \<open>App\<close> together with the remote calls that have not settled. An event is
  something the user or the network does; every event comes with the reading of the
  clock at that moment.
\<close>

record sys =
  app :: app_state
  pendingSends :: "send_request list"
  pendingFetches :: "fetch_request list"

record env =
  env_apiKey :: "jsstring option"
  env_libs :: libs
  env_parse :: "jsstring \<Rightarrow> json option"

datatype event =
    Send jsstring "AttachedImage list"
  | SendSettles nat "GeminiResponse settled"
  | SetModel jsstring
  | FetchSettles nat "GeminiResponse settled"
  | Knowledge kb_op

definition opt_list :: "'a option \<Rightarrow> 'a list" where
  "opt_list x = (case x of None \<Rightarrow> [] | Some v \<Rightarrow> [v])"

text \<open>
  Whether a knowledge operation sets the state of \<open>App\<close> (then \<open>App\<close> renders again and,
  the array of groups being a new one, the welcome effect runs), and whether it leaves
  \<open>currentUrls\<close> or \<open>currentFiles\<close> a new array (then the suggestion effect runs). The
  mutators always build a new array of groups; \<open>handleAddUrl\<close> builds a new \<open>urls\<close> only
  when it adds; \<open>filter\<close> always builds a new array. The selection of files sets no state
  of \<open>App\<close>; the settling of an import calls \<open>handleAddFiles\<close>, which builds a new \<open>files\<close>
  for the group of its own \<open>activeGroupId\<close>, the active group of the moment or not.
  Selecting the group that is active already sets nothing.
\<close>

definition sets_state :: "kb_op \<Rightarrow> 'a kb_state_scheme \<Rightarrow> bool" where
  "sets_state op st =
     (case op of
        ImportFiles selectedFiles \<Rightarrow> False
      | ImportSettles i \<Rightarrow> i < length (pendingImports st)
      | SetGroupId gid \<Rightarrow> gid \<noteq> activeGroupId st
      | _ \<Rightarrow> True)"

definition rebuilds_sources :: "kb_op \<Rightarrow> 'a kb_state_scheme \<Rightarrow> bool" where
  "rebuilds_sources op st =
     (case op of
        AddUrl url \<Rightarrow>
          currentUrls (activeGroupId st) (handleAddUrl (activeGroupId st) url (knowledgeGroups st))
            \<noteq> currentUrls (activeGroupId st) (knowledgeGroups st)
      | ImportSettles i \<Rightarrow>
          i < length (pendingImports st)
          \<and> ir_activeGroupId (pendingImports st ! i) = activeGroupId st
      | _ \<Rightarrow> sets_state op st)"

text \<open>
  One event. The selector of the active group offers the ids of the groups, so an
  event that selects another id does nothing. A settling event names the pending call by
  its position and does nothing when there is no such call. A knowledge operation that
  sets no state of \<open>App\<close> runs no effect.
\<close>

definition sys_step :: "env \<Rightarrow> sys \<Rightarrow> event \<times> nat \<Rightarrow> sys" where
  "sys_step E s ev =
     (case ev of
        (Send query images, now) \<Rightarrow>
          (case handleSendMessage (env_apiKey E) now query images (app s) of
             (st, request) \<Rightarrow>
               s\<lparr>app := st, pendingSends := pendingSends s @ opt_list request\<rparr>)
      | (SendSettles i result, now) \<Rightarrow>
          (if i < length (pendingSends s)
           then s\<lparr>app := handleSendMessage_settled (pendingSends s ! i) result (app s),
                  pendingSends := remove_nth i (pendingSends s)\<rparr>
           else s)
      | (SetModel model, now) \<Rightarrow>
          (if model = selectedModel (app s) then s
           else (case suggestionsEffect (env_apiKey E) ((app s)\<lparr>selectedModel := model\<rparr>) of
                   (st, request) \<Rightarrow>
                     s\<lparr>app := st, pendingFetches := pendingFetches s @ opt_list request\<rparr>))
      | (FetchSettles i result, now) \<Rightarrow>
          (if i < length (pendingFetches s)
           then s\<lparr>app := fetchAndSetInitialSuggestions_settled (env_parse E) now result (app s),
                  pendingFetches := remove_nth i (pendingFetches s)\<rparr>
           else s)
      | (Knowledge op, now) \<Rightarrow>
          (if (case op of
                 SetGroupId gid \<Rightarrow> gid \<notin> set (map group_id (knowledgeGroups (app s)))
               | _ \<Rightarrow> False)
           then s
           else if \<not> sets_state op (app s)
           then s\<lparr>app := kb_step (env_libs E) (app s) op\<rparr>
           else
             (let st1 = welcomeEffect (env_apiKey E) now (kb_step (env_libs E) (app s) op)
              in if rebuilds_sources op (app s)
                 then (case suggestionsEffect (env_apiKey E) st1 of
                         (st2, request) \<Rightarrow>
                           s\<lparr>app := st2, pendingFetches := pendingFetches s @ opt_list request\<rparr>)
                 else s\<lparr>app := st1\<rparr>)))"

text \<open>
  The first render and its two effects, at clock reading \<open>now\<close>: the state that
  \<open>useState\<close> sets up, the welcome, and the first suggestion fetch.
\<close>

definition app_init :: app_state where
  "app_init =
     \<lparr>knowledgeGroups = INITIAL_KNOWLEDGE_GROUPS,
      activeGroupId = group_id (hd INITIAL_KNOWLEDGE_GROUPS),
      pendingImports = [],
      selectedModel = fst (AVAILABLE_MODELS ! 1),
      chatMessages = [], isLoading = False, isFetchingSuggestions = False,
      initialQuerySuggestions = []\<rparr>"

definition sys_init :: "env \<Rightarrow> nat \<Rightarrow> sys" where
  "sys_init E now =
     (case suggestionsEffect (env_apiKey E) (welcomeEffect (env_apiKey E) now app_init) of
        (st, request) \<Rightarrow>
          \<lparr>app = st, pendingSends = [], pendingFetches = opt_list request\<rparr>)"

definition sys_run :: "env \<Rightarrow> nat \<Rightarrow> (event \<times> nat) list \<Rightarrow> sys" where
  "sys_run E now events = foldl (sys_step E) (sys_init E now) events"


section \<open>Predicates and example data used in the statements\<close>

text \<open>The capacity invariant of one group.\<close>

definition within_cap :: "KnowledgeGroup \<Rightarrow> bool" where
  "within_cap g \<longleftrightarrow> length (urls g) + length (files g) \<le> MAX_SOURCES"

definition kb_inv :: "'a kb_state_scheme \<Rightarrow> bool" where
  "kb_inv st \<longleftrightarrow>
     distinct (map group_id (knowledgeGroups st)) \<and> list_all within_cap (knowledgeGroups st)"

text \<open>
  A sequence of operations in which every import settles before the next operation
  starts: each selection is followed by its settling, and no other settling occurs.
\<close>

fun at_once :: "kb_op \<Rightarrow> kb_op list" where
  "at_once (ImportFiles selectedFiles) = [ImportFiles selectedFiles, ImportSettles 0]"
| "at_once (ImportSettles i) = []"
| "at_once op = [op]"

text \<open>The two messages with which \<open>handleFileChange\<close> refuses a selection for its count.\<close>

definition count_exceeded :: "ui_error option \<Rightarrow> bool" where
  "count_exceeded e \<longleftrightarrow>
     (case e of
        Some (MaxSourcesReached _) \<Rightarrow> True
      | Some (WouldExceedLimit _ _) \<Rightarrow> True
      | _ \<Rightarrow> False)"

text \<open>Every extension that has a \<open>case\<close> of its own in the \<open>switch\<close> of \<open>reader.onload\<close>.\<close>

definition handled_extensions :: "jsstring list" where
  "handled_extensions = buffer_extensions @ text_extensions @ rejected_extensions"

text \<open>Libraries that fail on every input, for the examples that do not reach them.\<close>

definition failing_libs :: libs where
  "failing_libs =
     \<lparr>mammoth_extractRawText = (\<lambda>_. None), XLSX_read = (\<lambda>_. None),
      pdf_getDocument = (\<lambda>_. Inl [])\<rparr>"

definition text_file :: "string \<Rightarrow> string \<Rightarrow> BrowserFile" where
  "text_file fname txt = \<lparr>bf_name = js fname, bf_text = Some (js txt), bf_buffer = None\<rparr>"

text \<open>The initial state with the second group, which has 15 URLs, made active.\<close>

definition capabilities_state :: kb_state where
  "capabilities_state = kb_step failing_libs kb_init (SetGroupId (js ''model-capabilities''))"

text \<open>
  A run in which a URL is added while a file is being read. The second group, which has
  15 URLs, is made active and four URLs are added; one file is selected; a fifth URL is
  added; then the readers settle.
\<close>

definition big_file :: BrowserFile where
  "big_file = text_file ''big.txt'' ''data''"

definition late_commit :: "kb_op list" where
  "late_commit =
     [SetGroupId (js ''model-capabilities''),
      AddUrl (js ''https://a.test/1''), AddUrl (js ''https://a.test/2''),
      AddUrl (js ''https://a.test/3''), AddUrl (js ''https://a.test/4''),
      ImportFiles [big_file],
      AddUrl (js ''https://a.test/5''),
      ImportSettles 0]"

definition six_files :: "BrowserFile list" where
  "six_files =
     [text_file ''a.txt'' ''1'', text_file ''b.txt'' ''2'', text_file ''c.txt'' ''3'',
      text_file ''d.txt'' ''4'', text_file ''e.txt'' ''5'', text_file ''f.txt'' ''6'']"

definition notes_group :: KnowledgeGroup where
  "notes_group =
     \<lparr>group_id = js ''g'', group_name = js ''G'', urls = [],
      files = [\<lparr>file_name = js ''notes.md'', file_content = js ''first''\<rparr>]\<rparr>"


text \<open>The end of the fence pattern, after group 2: \<^verbatim>\<open>\n?\s*```$\<close>.\<close>

definition closing :: "jsstring \<Rightarrow> jsstring \<Rightarrow> jsstring option" where
  "closing group2 r4 =
     opt_greedy 10 r4 (\<lambda>r5. star_greedy is_space r5 (\<lambda>r6. if r6 = fence then Some group2 else None))"

text \<open>
  A payload whose first character after leading white space exists and is not a
  backtick. Every JSON text is one (\<open>JSON_text_payload_ok\<close> below).
\<close>

definition payload_ok :: "jsstring \<Rightarrow> bool" where
  "payload_ok J \<longleftrightarrow> (case dropWhile is_space J of [] \<Rightarrow> False | c # _ \<Rightarrow> c \<noteq> 96)"

definition two_suggestions :: jsstring where
  "two_suggestions = js ''{\"suggestions\":[\"A?\",\"B?\"]}''"

text \<open>What group 2 holds for \<open>two_suggestions\<close> fenced with the tag \<open>c++\<close>.\<close>

definition cpp_group2 :: jsstring where
  "cpp_group2 = js ''++'' @ [10] @ two_suggestions"


text \<open>A query that is empty or holds white space only.\<close>

definition blank :: "jsstring \<Rightarrow> bool" where
  "blank query \<longleftrightarrow> list_all is_space query"

definition loading :: "ChatMessage \<Rightarrow> bool" where
  "loading m \<longleftrightarrow> msg_isLoading m = Some True"

text \<open>
  The invariant of the transition system: at most one send is pending, \<open>isLoading\<close> is
  set exactly while one is, \<open>isFetchingSuggestions\<close> is set only while a fetch is
  pending, and a message that is loading is the placeholder of a pending send.
\<close>

definition sys_inv :: "sys \<Rightarrow> bool" where
  "sys_inv s \<longleftrightarrow>
     length (pendingSends s) \<le> 1 \<and>
     (isLoading (app s) \<longleftrightarrow> pendingSends s \<noteq> []) \<and>
     (isFetchingSuggestions (app s) \<longrightarrow> pendingFetches s \<noteq> []) \<and>
     (\<forall>m\<in>set (chatMessages (app s)). loading m \<longrightarrow>
        (\<exists>r\<in>set (pendingSends s). msg_id m = msg_id (sr_placeholder r)))"

text \<open>
  A knowledge operation that takes effect in \<open>App\<close>: it sets state, and a selection names
  one of the groups. An event that settles a send.
\<close>

definition takes_effect :: "kb_op \<Rightarrow> 'a kb_state_scheme \<Rightarrow> bool" where
  "takes_effect op st \<longleftrightarrow>
     sets_state op st \<and>
     (case op of
        SetGroupId gid \<Rightarrow> gid \<in> set (map group_id (knowledgeGroups st))
      | _ \<Rightarrow> True)"

definition settles_send :: "event \<Rightarrow> bool" where
  "settles_send e \<longleftrightarrow> (case e of SendSettles i result \<Rightarrow> True | _ \<Rightarrow> False)"

text \<open>
  A message that the welcome effect or the suggestion reader has made: it is not loading
  and its id starts with \<open>sys\<close>. A state in which the send \<open>r\<close> is outstanding and the
  transcript holds such messages only.
\<close>

definition from_system :: "ChatMessage \<Rightarrow> bool" where
  "from_system msg \<longleftrightarrow> \<not> loading msg \<and> take 3 (msg_id msg) = js ''sys''"

definition awaiting :: "send_request \<Rightarrow> sys \<Rightarrow> bool" where
  "awaiting r s \<longleftrightarrow>
     isLoading (app s) \<and> pendingSends s = [r] \<and> list_all from_system (chatMessages (app s))"

text \<open>An idle state of \<open>App\<close> with a welcome in the transcript.\<close>

definition idle_state :: app_state where
  "idle_state =
     app_init\<lparr>chatMessages := [system_message (js ''system-welcome-'') 1000 (js ''Welcome'')]\<rparr>"

text \<open>An environment with a credential.\<close>

definition demo_env :: env where
  "demo_env = \<lparr>env_apiKey = Some (js ''key''), env_libs = failing_libs, env_parse = JSON_parse\<rparr>"

text \<open>
  The user selects another model right after the first render; then the first of the
  two suggestion fetches fails.
\<close>

definition pick_pro :: "(event \<times> nat) list" where
  "pick_pro = [(SetModel (js ''gemini-2.5-pro''), 1)]"

definition pick_pro_then_settle :: "(event \<times> nat) list" where
  "pick_pro_then_settle = pick_pro @ [(FetchSettles 0 (Rejected []), 2)]"


text \<open>
  The first suggestion fetch fails and the user sends \<open>hello\<close>; then a URL is removed
  while the answer is awaited, and the answer arrives.
\<close>

definition answer :: GeminiResponse where
  "answer = \<lparr>resp_text = js ''answer'', resp_urlContextMetadata = None\<rparr>"

definition send_hello :: "(event \<times> nat) list" where
  "send_hello = [(FetchSettles 0 (Rejected []), 10), (Send (js ''hello'') [], 20)]"

definition reset_during_send :: "(event \<times> nat) list" where
  "reset_during_send =
     send_hello @ [(Knowledge (RemoveUrl (js ''x'')), 30), (SendSettles 0 (Fulfilled answer), 40)]"


section \<open>Frame of the group mutators\<close>


lemma list_all2_map_self:
  "(\<And>x. x \<in> set xs \<Longrightarrow> R x (f x)) \<Longrightarrow> list_all2 R xs (map f xs)"
  by (induction xs) auto

text \<open>
  C9. Each of the four mutators (\<open>handleAddUrl\<close>, \<open>handleRemoveUrl\<close>, \<open>handleAddFiles\<close>,
  \<open>handleRemoveFile\<close>) returns a list of the same length in which, position by position,
  the group keeps its id and its name, and a group whose id is not the active id is
  returned unchanged.
\<close>

theorem mutators_frame:
  "list_all2 (frame_ok a) gs (handleAddUrl a url gs) \<and>
   list_all2 (frame_ok a) gs (handleRemoveUrl a url gs) \<and>
   list_all2 (frame_ok a) gs (handleAddFiles a newFiles gs) \<and>
   list_all2 (frame_ok a) gs (handleRemoveFile a fname gs)"
  unfolding handleAddUrl_def handleRemoveUrl_def handleAddFiles_def handleRemoveFile_def
  by (intro conjI list_all2_map_self) (simp_all add: frame_ok_def)

theorem mutators_frame_witness:
  "list_all2 (frame_ok (js ''a''))
     [\<lparr>group_id = js ''a'', group_name = js ''A'', urls = [], files = []\<rparr>,
      \<lparr>group_id = js ''b'', group_name = js ''B'', urls = [js ''u''], files = []\<rparr>]
     (handleAddUrl (js ''a'') (js ''u'')
       [\<lparr>group_id = js ''a'', group_name = js ''A'', urls = [], files = []\<rparr>,
        \<lparr>group_id = js ''b'', group_name = js ''B'', urls = [js ''u''], files = []\<rparr>]) \<and>
   handleAddUrl (js ''a'') (js ''u'')
       [\<lparr>group_id = js ''a'', group_name = js ''A'', urls = [], files = []\<rparr>,
        \<lparr>group_id = js ''b'', group_name = js ''B'', urls = [js ''u''], files = []\<rparr>]
     = [\<lparr>group_id = js ''a'', group_name = js ''A'', urls = [js ''u''], files = []\<rparr>,
        \<lparr>group_id = js ''b'', group_name = js ''B'', urls = [js ''u''], files = []\<rparr>]"
  using mutators_frame [of "js ''a''"
      "[\<lparr>group_id = js ''a'', group_name = js ''A'', urls = [], files = []\<rparr>,
        \<lparr>group_id = js ''b'', group_name = js ''B'', urls = [js ''u''], files = []\<rparr>]"
      "js ''u''" "[]" "[]"]
  by (simp add: handleAddUrl_def js_def MAX_SOURCES_def)


section \<open>De-duplication of files\<close>

lemma findIndex_ge: "- 1 \<le> findIndex p xs"
  by (induction xs) (auto simp: Let_def)

lemma findIndex_at:
  "findIndex p (pre @ x # post) = int (length pre) \<longleftrightarrow> p x \<and> (\<forall>y\<in>set pre. \<not> p y)"
proof (induction pre)
  case Nil
  show ?case using findIndex_ge [of p post] by (auto simp: Let_def)
next
  case (Cons a pre)
  show ?case using Cons.IH findIndex_ge [of p "pre @ x # post"] by (auto simp: Let_def)
qed

lemma filter_indexed_shift:
  "map fst (filter (\<lambda>(x, i). int i = findIndex (\<lambda>f. file_name f = file_name x) (pre @ xs))
                   (zip xs [length pre ..< length pre + length xs]))
   = firstByName (file_name ` set pre) xs"
proof (induction xs arbitrary: pre)
  case Nil
  show ?case by simp
next
  case (Cons x xs)
  have up: "[length pre ..< length pre + length (x # xs)]
            = length pre # [length (pre @ [x]) ..< length (pre @ [x]) + length xs]"
    by (simp add: upt_rec)
  have keep: "int (length pre) = findIndex (\<lambda>f. file_name f = file_name x) (pre @ x # xs)
              \<longleftrightarrow> file_name x \<notin> file_name ` set pre"
    using findIndex_at [of "\<lambda>f. file_name f = file_name x" pre x xs] by (auto simp: image_iff)
  have rest: "map fst (filter (\<lambda>(y, i). int i = findIndex (\<lambda>f. file_name f = file_name y) ((pre @ [x]) @ xs))
                   (zip xs [length (pre @ [x]) ..< length (pre @ [x]) + length xs]))
              = firstByName (file_name ` set (pre @ [x])) xs"
    by (rule Cons.IH)
  show ?case
    unfolding up using keep rest by (auto simp: insert_commute insert_absorb)
qed

lemma uniqueFiles_firstByName: "uniqueFiles xs = firstByName {} xs"
  using filter_indexed_shift [of "[]" xs] by (simp add: uniqueFiles_def filter_indexed_def)

lemma firstByName_dedup:
  "firstByName seen xs = dedupByName (filter (\<lambda>f. file_name f \<notin> seen) xs)"
proof (induction xs arbitrary: seen)
  case Nil
  show ?case by simp
next
  case (Cons x xs)
  have "filter (\<lambda>g. file_name g \<noteq> file_name x) (filter (\<lambda>f. file_name f \<notin> seen) xs)
        = filter (\<lambda>f. file_name f \<notin> insert (file_name x) seen) xs"
    by (induction xs) auto
  then show ?case using Cons.IH by simp
qed

lemma uniqueFiles_dedup: "uniqueFiles xs = dedupByName xs"
  by (simp add: uniqueFiles_firstByName firstByName_dedup)

lemma firstByName_append:
  "firstByName seen (xs @ ys) = firstByName seen xs @ firstByName (seen \<union> file_name ` set xs) ys"
  by (induction xs arbitrary: seen) (auto simp: insert_absorb)

lemma firstByName_distinct_id:
  "distinct (map file_name xs) \<Longrightarrow> file_name ` set xs \<inter> seen = {} \<Longrightarrow> firstByName seen xs = xs"
  by (induction xs arbitrary: seen) auto

lemma firstByName_all_seen:
  "file_name ` set ys \<subseteq> seen \<Longrightarrow> firstByName seen ys = []"
  by (induction ys) auto

lemma length_firstByName: "length (firstByName seen xs) \<le> length xs"
  by (induction xs arbitrary: seen) (auto simp: le_SucI)

lemma length_firstByName_filter:
  "length (firstByName seen xs) \<le> length (filter (\<lambda>f. file_name f \<notin> seen) xs)"
proof (induction xs arbitrary: seen)
  case Nil
  show ?case by simp
next
  case (Cons x xs)
  have mono: "length (filter (\<lambda>f. file_name f \<notin> insert (file_name x) seen) xs)
              \<le> length (filter (\<lambda>f. file_name f \<notin> seen) xs)"
    by (induction xs) (auto simp: le_SucI)
  show ?case using Cons.IH [of seen] Cons.IH [of "insert (file_name x) seen"] mono
    by (auto simp: le_SucI)
qed

lemma names_firstByName: "file_name ` set (firstByName seen xs) = file_name ` set xs - seen"
  by (induction xs arbitrary: seen) auto

lemma distinct_firstByName: "distinct (map file_name (firstByName seen xs))"
  by (induction xs arbitrary: seen) (auto simp: names_firstByName)

lemma length_uniqueFiles_append:
  "length (uniqueFiles (xs @ ys)) \<le> length xs + length ys"
  using length_firstByName [of "{}" "xs @ ys"] by (simp add: uniqueFiles_firstByName)

lemma uniqueFiles_distinct_append:
  "distinct (map file_name xs) \<Longrightarrow>
   uniqueFiles (xs @ ys) = xs @ dedupByName (filter (\<lambda>f. file_name f \<notin> file_name ` set xs) ys)"
  by (simp add: uniqueFiles_firstByName firstByName_append firstByName_distinct_id
                firstByName_dedup [symmetric])

lemma map_cong_id: "(\<And>x. x \<in> set xs \<Longrightarrow> f x = x) \<Longrightarrow> map f xs = xs"
  by (induction xs) auto


text \<open>
  C4. \<open>handleAddFiles\<close> gives the active group the list \<open>dedupByName (files @ newFiles)\<close>:
  the existing files followed by the new ones, keeping for each name its first
  occurrence. When the names of the group's files are distinct (they are in every
  state the application reaches, \<open>files_distinct_reachable\<close>) and every name of the
  batch is already among them, the groups come back unchanged.
\<close>

theorem handleAddFiles_dedup:
  "handleAddFiles a newFiles gs =
     map (\<lambda>g. if group_id g = a then g\<lparr>files := dedupByName (files g @ newFiles)\<rparr> else g) gs
   \<and> ((\<forall>g\<in>set gs. group_id g = a \<longrightarrow>
          distinct (map file_name (files g)) \<and>
          file_name ` set newFiles \<subseteq> file_name ` set (files g))
        \<longrightarrow> handleAddFiles a newFiles gs = gs)"
proof (intro conjI impI)
  show "handleAddFiles a newFiles gs =
     map (\<lambda>g. if group_id g = a then g\<lparr>files := dedupByName (files g @ newFiles)\<rparr> else g) gs"
    by (simp add: handleAddFiles_def uniqueFiles_dedup)
next
  assume h: "\<forall>g\<in>set gs. group_id g = a \<longrightarrow>
          distinct (map file_name (files g)) \<and>
          file_name ` set newFiles \<subseteq> file_name ` set (files g)"
  have "\<And>g. g \<in> set gs \<Longrightarrow>
          (if group_id g = a then g\<lparr>files := uniqueFiles (files g @ newFiles)\<rparr> else g) = g"
  proof -
    fix g assume "g \<in> set gs"
    with h have d: "group_id g = a \<Longrightarrow> distinct (map file_name (files g))"
      and sub: "group_id g = a \<Longrightarrow> file_name ` set newFiles \<subseteq> file_name ` set (files g)"
      by auto
    show "(if group_id g = a then g\<lparr>files := uniqueFiles (files g @ newFiles)\<rparr> else g) = g"
    proof (cases "group_id g = a")
      case True
      have "filter (\<lambda>f. file_name f \<notin> file_name ` set (files g)) newFiles = []"
        using sub [OF True] by (auto simp: filter_empty_conv)
      then have "uniqueFiles (files g @ newFiles) = files g"
        using uniqueFiles_distinct_append [OF d [OF True], of newFiles] by simp
      then show ?thesis using True by simp
    next
      case False
      then show ?thesis by simp
    qed
  qed
  then show "handleAddFiles a newFiles gs = gs"
    unfolding handleAddFiles_def by (rule map_cong_id)
qed



theorem handleAddFiles_dedup_witness:
  "handleAddFiles (js ''g'') [\<lparr>file_name = js ''notes.md'', file_content = js ''second''\<rparr>]
     [notes_group] = [notes_group]
   \<and> files notes_group = [\<lparr>file_name = js ''notes.md'', file_content = js ''first''\<rparr>]"
proof -
  have h: "\<forall>g\<in>set [notes_group]. group_id g = js ''g'' \<longrightarrow>
      distinct (map file_name (files g)) \<and>
      file_name ` set [\<lparr>file_name = js ''notes.md'', file_content = js ''second''\<rparr>]
        \<subseteq> file_name ` set (files g)"
    by (simp add: notes_group_def)
  have f: "files notes_group = [\<lparr>file_name = js ''notes.md'', file_content = js ''first''\<rparr>]"
    by (simp add: notes_group_def)
  show ?thesis
    using h f handleAddFiles_dedup [of "js ''g''"
        "[\<lparr>file_name = js ''notes.md'', file_content = js ''second''\<rparr>]" "[notes_group]"]
    by blast
qed


section \<open>The source cap\<close>

lemma find_distinct_ids:
  "distinct (map group_id gs) \<Longrightarrow> g \<in> set gs \<Longrightarrow> find (\<lambda>x. group_id x = group_id g) gs = Some g"
  by (induction gs) (auto simp: image_iff)

lemma within_cap_handleAddUrl:
  "list_all within_cap gs \<Longrightarrow> list_all within_cap (handleAddUrl a url gs)"
  by (induction gs) (simp_all add: handleAddUrl_def within_cap_def)

lemma length_filter_add_le: "a + length xs \<le> m \<Longrightarrow> a + length (filter P xs) \<le> m"
  using length_filter_le [of P xs] by linarith

lemma within_cap_handleRemoveUrl:
  "list_all within_cap gs \<Longrightarrow> list_all within_cap (handleRemoveUrl a url gs)"
  by (induction gs) (simp_all add: handleRemoveUrl_def within_cap_def add.commute length_filter_add_le)

lemma within_cap_handleRemoveFile:
  "list_all within_cap gs \<Longrightarrow> list_all within_cap (handleRemoveFile a n gs)"
  by (induction gs) (simp_all add: handleRemoveFile_def within_cap_def length_filter_add_le)

lemma successful_length:
  "length (concat (map (\<lambda>r. case r of Inr v \<Rightarrow> [v] | Inl _ \<Rightarrow> []) rs)) \<le> length rs"
  by (induction rs) (auto split: sum.splits)

lemma handleFileChange_Some:
  assumes "fc_onAddFiles (handleFileChange L us fs m e sel) = Some new"
  shows "length us + length fs + length new \<le> m"
proof -
  let ?pending = "filesToProcess fs sel"
  let ?succ = "concat (map (\<lambda>r. case r of Inr v \<Rightarrow> [v] | Inl _ \<Rightarrow> []) (map (processFile L) ?pending))"
  have a: "sel \<noteq> []" using assms by (auto simp: handleFileChange_def)
  have b: "\<not> totalSources us fs \<ge> m" using assms a by (auto simp: handleFileChange_def)
  have c: "\<not> totalSources us fs + length ?pending > m"
    using assms a b by (auto simp: handleFileChange_def Let_def)
  have new: "new = ?succ"
    using assms a b c by (simp add: handleFileChange_def Let_def split: if_splits)
  have "length new \<le> length ?pending"
    unfolding new using successful_length [of "map (processFile L) ?pending"] by simp
  with c show ?thesis by (simp add: totalSources_def)
qed

lemma ids_handleAddUrl: "map group_id (handleAddUrl a u gs) = map group_id gs"
  by (induction gs) (simp_all add: handleAddUrl_def)
lemma ids_handleRemoveUrl: "map group_id (handleRemoveUrl a u gs) = map group_id gs"
  by (induction gs) (simp_all add: handleRemoveUrl_def)
lemma ids_handleAddFiles: "map group_id (handleAddFiles a n gs) = map group_id gs"
  by (induction gs) (simp_all add: handleAddFiles_def)
lemma ids_handleRemoveFile: "map group_id (handleRemoveFile a n gs) = map group_id gs"
  by (induction gs) (simp_all add: handleRemoveFile_def)

lemma list_all_map_I: "(\<And>x. x \<in> set xs \<Longrightarrow> P (f x)) \<Longrightarrow> list_all P (map f xs)"
  by (induction xs) auto

lemma ids_kb_step:
  "map group_id (knowledgeGroups (kb_step L st op)) = map group_id (knowledgeGroups st)"
  by (cases op)
     (simp_all add: ids_handleAddUrl ids_handleRemoveUrl ids_handleAddFiles ids_handleRemoveFile
        handleFileChange_settled_def)

lemma ids_initial: "distinct (map group_id INITIAL_KNOWLEDGE_GROUPS)"
  by (simp add: INITIAL_KNOWLEDGE_GROUPS_def js_def)

lemma cap_initial: "list_all within_cap INITIAL_KNOWLEDGE_GROUPS"
  by (simp add: INITIAL_KNOWLEDGE_GROUPS_def within_cap_def
        GEMINI_DOCS_URLS_def MODEL_CAPABILITIES_URLS_def MAX_SOURCES_def)

lemma kb_inv_init: "kb_inv kb_init"
  by (simp add: kb_inv_def kb_init_def ids_initial cap_initial)

text \<open>
  The operations that test the count in their updater, and the removals, keep every
  group within the cap, whatever happened before.
\<close>

lemma kb_inv_step_checked:
  assumes "kb_inv st" and "\<forall>i. op \<noteq> ImportSettles i"
  shows "kb_inv (kb_step L st op)"
  using assms
  by (cases op)
     (simp_all add: kb_inv_def within_cap_handleAddUrl within_cap_handleRemoveUrl
        within_cap_handleRemoveFile ids_handleAddUrl ids_handleRemoveUrl ids_handleRemoveFile)

text \<open>
  An import whose readers settle before anything else happens keeps the cap: its
  \<open>handleAddFiles\<close> sees the groups that its check saw.
\<close>

lemma import_at_once:
  assumes "kb_inv st" and "pendingImports st = []"
  shows "kb_inv (kb_step L (kb_step L st (ImportFiles sel)) (ImportSettles 0))"
    and "pendingImports (kb_step L (kb_step L st (ImportFiles sel)) (ImportSettles 0)) = []"
proof -
  let ?fc = "fc_onAddFiles (handleFileChange L (currentUrls (activeGroupId st) (knowledgeGroups st))
                (currentFiles (activeGroupId st) (knowledgeGroups st)) MAX_SOURCES None sel)"
  have "kb_inv (kb_step L (kb_step L st (ImportFiles sel)) (ImportSettles 0))
        \<and> pendingImports (kb_step L (kb_step L st (ImportFiles sel)) (ImportSettles 0)) = []"
  proof (cases ?fc)
    case None
    then show ?thesis using assms by (simp add: handleFileChange_awaits_def kb_inv_def)
  next
    case (Some new)
    have bound: "length (currentUrls (activeGroupId st) (knowledgeGroups st))
          + length (currentFiles (activeGroupId st) (knowledgeGroups st)) + length new \<le> MAX_SOURCES"
      by (rule handleFileChange_Some [OF Some])
    have "within_cap (if group_id g = activeGroupId st
                      then g\<lparr>files := uniqueFiles (files g @ new)\<rparr> else g)"
      if g: "g \<in> set (knowledgeGroups st)" for g
    proof (cases "group_id g = activeGroupId st")
      case True
      have "find (\<lambda>x. group_id x = activeGroupId st) (knowledgeGroups st) = Some g"
        using find_distinct_ids [of "knowledgeGroups st" g] assms(1) g True by (simp add: kb_inv_def)
      then have "currentUrls (activeGroupId st) (knowledgeGroups st) = urls g"
        and "currentFiles (activeGroupId st) (knowledgeGroups st) = files g"
        by (simp_all add: currentUrls_def currentFiles_def activeGroup_def)
      with bound have "length (urls g) + length (files g) + length new \<le> MAX_SOURCES" by simp
      with length_uniqueFiles_append [of "files g" new] True show ?thesis
        by (simp add: within_cap_def)
    next
      case False
      then show ?thesis using assms(1) g by (simp add: kb_inv_def list_all_iff)
    qed
    then have "list_all within_cap (handleAddFiles (activeGroupId st) new (knowledgeGroups st))"
      unfolding handleAddFiles_def by (rule list_all_map_I)
    then show ?thesis using Some assms
      by (simp add: handleFileChange_awaits_def handleFileChange_settled_def kb_inv_def
            ids_handleAddFiles remove_nth_def)
  qed
  then show "kb_inv (kb_step L (kb_step L st (ImportFiles sel)) (ImportSettles 0))"
    and "pendingImports (kb_step L (kb_step L st (ImportFiles sel)) (ImportSettles 0)) = []"
    by simp_all
qed

lemma at_once_step:
  assumes "kb_inv st" and "pendingImports st = []"
  shows "kb_inv (foldl (kb_step L) st (at_once op))
       \<and> pendingImports (foldl (kb_step L) st (at_once op)) = []"
proof (cases op)
  case (ImportFiles sel)
  then show ?thesis using import_at_once [OF assms, of L sel] by simp
next
  case (ImportSettles i)
  then show ?thesis using assms by simp
qed (use assms kb_inv_step_checked [OF assms(1), of op L] in simp_all)

lemma at_once_foldl:
  "kb_inv st \<Longrightarrow> pendingImports st = [] \<Longrightarrow>
   kb_inv (foldl (kb_step L) st (concat (map at_once ops)))"
proof (induction ops arbitrary: st)
  case Nil
  then show ?case by simp
next
  case (Cons op ops)
  from at_once_step [OF Cons.prems, of L op] Cons.IH [of "foldl (kb_step L) st (at_once op)"]
  show ?case by simp
qed

text \<open>
  So the cap holds after every operation of a run in which every import settles before
  the next operation starts.
\<close>

lemma sources_cap_sequential:
  "list_all within_cap (knowledgeGroups (kb_run L (concat (map at_once (take n ops)))))"
  using at_once_foldl [OF kb_inv_init, of L "take n ops"]
  by (simp add: kb_run_def kb_inv_def kb_init_def)


lemma length_capabilities_urls: "length MODEL_CAPABILITIES_URLS = 15"
  by (simp add: MODEL_CAPABILITIES_URLS_def)

lemma fresh_urls:
  "js ''https://a.test/1'' \<notin> set MODEL_CAPABILITIES_URLS"
  "js ''https://a.test/2'' \<notin> set MODEL_CAPABILITIES_URLS"
  "js ''https://a.test/3'' \<notin> set MODEL_CAPABILITIES_URLS"
  "js ''https://a.test/4'' \<notin> set MODEL_CAPABILITIES_URLS"
  "js ''https://a.test/5'' \<notin> set MODEL_CAPABILITIES_URLS"
  by (simp_all add: MODEL_CAPABILITIES_URLS_def js_def)

lemma new_urls_differ:
  "js ''https://a.test/2'' \<notin> set [js ''https://a.test/1'']"
  "js ''https://a.test/3'' \<notin> set [js ''https://a.test/1'', js ''https://a.test/2'']"
  "js ''https://a.test/4''
     \<notin> set [js ''https://a.test/1'', js ''https://a.test/2'', js ''https://a.test/3'']"
  "js ''https://a.test/5''
     \<notin> set [js ''https://a.test/1'', js ''https://a.test/2'', js ''https://a.test/3'',
              js ''https://a.test/4'']"
  by (simp_all add: js_def)

lemma overview_not_capabilities: "js ''gemini-overview'' \<noteq> js ''model-capabilities''"
  by (simp add: js_def)

lemma big_file_read:
  "processFile L big_file = Inr \<lparr>file_name = js ''big.txt'', file_content = js ''data''\<rparr>"
  by (simp add: big_file_def text_file_def processFile_def fileExtension_def read_mode_of_def
        buffer_extensions_def text_extensions_def rejected_extensions_def onload_text_def
        resolve_text_def toLowerCase_def js_def Let_def)

text \<open>The steps of such a run on two groups of which the second is active.\<close>

lemma second_AddUrl:
  assumes "knowledgeGroups st = [g1, g2]" "group_id g1 \<noteq> activeGroupId st"
    "group_id g2 = activeGroupId st"
    "length (urls g2) + length (files g2) < MAX_SOURCES" "u \<notin> set (urls g2)"
  shows "kb_step L st (AddUrl u) = st\<lparr>knowledgeGroups := [g1, g2\<lparr>urls := urls g2 @ [u]\<rparr>]\<rparr>"
  using assms by (simp add: handleAddUrl_def)

lemma second_ImportFiles:
  assumes "knowledgeGroups st = [g1, g2]" "group_id g1 \<noteq> activeGroupId st"
    "group_id g2 = activeGroupId st"
    "length (urls g2) + length (files g2) < MAX_SOURCES"
    "files g2 = []" "processFile L f = Inr mf"
  shows "kb_step L st (ImportFiles [f])
         = st\<lparr>pendingImports := pendingImports st @
                [\<lparr>ir_activeGroupId = activeGroupId st, ir_successfulFiles = [mf]\<rparr>]\<rparr>"
  using assms
  by (simp add: handleFileChange_awaits_def handleFileChange_def currentUrls_def
        currentFiles_def activeGroup_def totalSources_def filesToProcess_def Let_def)

lemma second_ImportSettles:
  assumes "knowledgeGroups st = [g1, g2]" "group_id g1 \<noteq> a" "group_id g2 = a"
    "files g2 = []"
    "pendingImports st = [\<lparr>ir_activeGroupId = a, ir_successfulFiles = [mf]\<rparr>]"
  shows "kb_step L st (ImportSettles 0)
         = st\<lparr>knowledgeGroups := [g1, g2\<lparr>files := [mf]\<rparr>], pendingImports := []\<rparr>"
  using assms
  by (simp add: handleFileChange_settled_def handleAddFiles_def uniqueFiles_dedup remove_nth_def)

lemma late_commit_states:
  fixes L :: libs
  defines "A \<equiv> js ''model-capabilities''"
  defines "g1 \<equiv> \<lparr>group_id = js ''gemini-overview'', group_name = js ''Gemini Docs Overview'',
                    urls = GEMINI_DOCS_URLS, files = []\<rparr>"
  defines "g2 \<equiv> (\<lambda>us fs. \<lparr>group_id = A, group_name = js ''Model Capabilities'',
                             urls = MODEL_CAPABILITIES_URLS @ us, files = fs\<rparr>)"
  defines "four \<equiv> [js ''https://a.test/1'', js ''https://a.test/2'', js ''https://a.test/3'',
                     js ''https://a.test/4'']"
  defines "big \<equiv> \<lparr>file_name = js ''big.txt'', file_content = js ''data''\<rparr>"
  shows "kb_run L (take 5 late_commit)
           = \<lparr>knowledgeGroups = [g1, g2 four []], activeGroupId = A, pendingImports = []\<rparr>"
    and "kb_run L (take 6 late_commit)
           = \<lparr>knowledgeGroups = [g1, g2 four []], activeGroupId = A,
              pendingImports = [\<lparr>ir_activeGroupId = A, ir_successfulFiles = [big]\<rparr>]\<rparr>"
    and "kb_run L (take 7 late_commit)
           = \<lparr>knowledgeGroups = [g1, g2 (four @ [js ''https://a.test/5'']) []], activeGroupId = A,
              pendingImports = [\<lparr>ir_activeGroupId = A, ir_successfulFiles = [big]\<rparr>]\<rparr>"
    and "kb_run L late_commit
           = \<lparr>knowledgeGroups = [g1, g2 (four @ [js ''https://a.test/5'']) [big]],
              activeGroupId = A, pendingImports = []\<rparr>"
proof -
  let ?st = "\<lambda>us fs p. \<lparr>knowledgeGroups = [g1, g2 us fs], activeGroupId = A, pendingImports = p\<rparr>"
  have ne: "group_id g1 \<noteq> A"
    by (simp add: g1_def A_def overview_not_capabilities)
  have add: "kb_step L (?st us [] p) (AddUrl u) = ?st (us @ [u]) [] p"
    if "length us < 5" "u \<notin> set MODEL_CAPABILITIES_URLS" "u \<notin> set us" for us p u
    using that ne
      second_AddUrl [of "?st us [] p" g1 "g2 us []" u L]
    by (simp add: g2_def length_capabilities_urls MAX_SOURCES_def)
  have imp: "kb_step L (?st us [] p) (ImportFiles [big_file])
             = ?st us [] (p @ [\<lparr>ir_activeGroupId = A, ir_successfulFiles = [big]\<rparr>])"
    if "length us < 5" for us p
    using that ne
      second_ImportFiles [of "?st us [] p" g1 "g2 us []" L big_file big]
    by (simp add: g2_def length_capabilities_urls MAX_SOURCES_def big_file_read big_def)
  have settle: "kb_step L (?st us [] [\<lparr>ir_activeGroupId = A, ir_successfulFiles = [big]\<rparr>])
                  (ImportSettles 0)
                = ?st us [big] []" for us
    using ne
      second_ImportSettles [of "?st us [] [\<lparr>ir_activeGroupId = A, ir_successfulFiles = [big]\<rparr>]"
                              g1 "g2 us []" A big L]
    by (simp add: g2_def)
  have s1: "kb_step L kb_init (SetGroupId A) = ?st [] [] []"
    by (simp add: kb_init_def INITIAL_KNOWLEDGE_GROUPS_def g1_def g2_def A_def)
  have s2: "kb_step L (?st [] [] []) (AddUrl (js ''https://a.test/1''))
            = ?st [js ''https://a.test/1''] [] []"
    using add [of "[]" "js ''https://a.test/1''" "[]"] fresh_urls(1) by simp
  have s3: "kb_step L (?st [js ''https://a.test/1''] [] []) (AddUrl (js ''https://a.test/2''))
            = ?st [js ''https://a.test/1'', js ''https://a.test/2''] [] []"
    using add [of "[js ''https://a.test/1'']" "js ''https://a.test/2''" "[]"] fresh_urls(2)
      new_urls_differ(1) by simp
  have s4: "kb_step L (?st [js ''https://a.test/1'', js ''https://a.test/2''] [] [])
              (AddUrl (js ''https://a.test/3''))
            = ?st [js ''https://a.test/1'', js ''https://a.test/2'', js ''https://a.test/3''] [] []"
    using add [of "[js ''https://a.test/1'', js ''https://a.test/2'']" "js ''https://a.test/3''" "[]"]
      fresh_urls(3) new_urls_differ(2) by simp
  have s5: "kb_step L (?st [js ''https://a.test/1'', js ''https://a.test/2'', js ''https://a.test/3''] [] [])
              (AddUrl (js ''https://a.test/4''))
            = ?st four [] []"
    using add [of "[js ''https://a.test/1'', js ''https://a.test/2'', js ''https://a.test/3'']"
                 "js ''https://a.test/4''" "[]"]
      fresh_urls(4) new_urls_differ(3) by (simp add: four_def)
  have l4: "length four < 5" by (simp add: four_def)
  have s6: "kb_step L (?st four [] []) (ImportFiles [big_file])
            = ?st four [] [\<lparr>ir_activeGroupId = A, ir_successfulFiles = [big]\<rparr>]"
    using imp [OF l4, of "[]"] by simp
  have s7: "kb_step L (?st four [] [\<lparr>ir_activeGroupId = A, ir_successfulFiles = [big]\<rparr>])
              (AddUrl (js ''https://a.test/5''))
            = ?st (four @ [js ''https://a.test/5'']) [] [\<lparr>ir_activeGroupId = A, ir_successfulFiles = [big]\<rparr>]"
    using add [OF l4, of "js ''https://a.test/5''" "[\<lparr>ir_activeGroupId = A, ir_successfulFiles = [big]\<rparr>]"]
      fresh_urls(5) new_urls_differ(4) by (simp add: four_def)
  note s8 = settle [of "four @ [js ''https://a.test/5'']"]
  have ops: "late_commit =
     [SetGroupId A,
      AddUrl (js ''https://a.test/1''), AddUrl (js ''https://a.test/2''),
      AddUrl (js ''https://a.test/3''), AddUrl (js ''https://a.test/4''),
      ImportFiles [big_file],
      AddUrl (js ''https://a.test/5''),
      ImportSettles 0]"
    by (simp add: late_commit_def A_def)
  have t5: "take 5 late_commit = [SetGroupId A,
      AddUrl (js ''https://a.test/1''), AddUrl (js ''https://a.test/2''),
      AddUrl (js ''https://a.test/3''), AddUrl (js ''https://a.test/4'')]"
    and t6: "take 6 late_commit = [SetGroupId A,
      AddUrl (js ''https://a.test/1''), AddUrl (js ''https://a.test/2''),
      AddUrl (js ''https://a.test/3''), AddUrl (js ''https://a.test/4''), ImportFiles [big_file]]"
    and t7: "take 7 late_commit = [SetGroupId A,
      AddUrl (js ''https://a.test/1''), AddUrl (js ''https://a.test/2''),
      AddUrl (js ''https://a.test/3''), AddUrl (js ''https://a.test/4''), ImportFiles [big_file],
      AddUrl (js ''https://a.test/5'')]"
    by (simp_all add: ops)
  show "kb_run L (take 5 late_commit) = ?st four [] []"
    unfolding kb_run_def t5 by (simp only: foldl_Cons foldl_Nil s1 s2 s3 s4 s5)
  show "kb_run L (take 6 late_commit)
          = ?st four [] [\<lparr>ir_activeGroupId = A, ir_successfulFiles = [big]\<rparr>]"
    unfolding kb_run_def t6 by (simp only: foldl_Cons foldl_Nil s1 s2 s3 s4 s5 s6)
  show "kb_run L (take 7 late_commit)
          = ?st (four @ [js ''https://a.test/5'']) []
              [\<lparr>ir_activeGroupId = A, ir_successfulFiles = [big]\<rparr>]"
    unfolding kb_run_def t7 by (simp only: foldl_Cons foldl_Nil s1 s2 s3 s4 s5 s6 s7)
  show "kb_run L late_commit = ?st (four @ [js ''https://a.test/5'']) [big] []"
    unfolding kb_run_def ops by (simp only: foldl_Cons foldl_Nil s1 s2 s3 s4 s5 s6 s7 s8)
qed


text \<open>
  C1 asks that every group holds at most \<open>MAX_SOURCES\<close> = 20 sources after each add
  operation, with the capacity check of \<open>handleFileChange\<close> applied before file batches.
  The code does not keep this in the run \<open>late_commit\<close>. With 19 URLs in the active group
  the check of \<open>handleFileChange\<close> admits one file and the import waits for its reader;
  \<open>handleAddUrl\<close> then finds 19 sources and adds the twentieth; when the reader settles,
  \<open>handleAddFiles\<close>, which tests no count, adds the file. Before that last step every
  group is within the cap; after it the active group holds 20 URLs and one file.
\<close>

theorem late_commit_exceeds_cap:
  "list_all within_cap (knowledgeGroups (kb_run failing_libs (take 6 late_commit)))
   \<and> length (currentUrls (activeGroupId (kb_run failing_libs (take 5 late_commit)))
                         (knowledgeGroups (kb_run failing_libs (take 5 late_commit)))) = 19
   \<and> pendingImports (kb_run failing_libs (take 6 late_commit))
       = [\<lparr>ir_activeGroupId = js ''model-capabilities'',
           ir_successfulFiles = [\<lparr>file_name = js ''big.txt'', file_content = js ''data''\<rparr>]\<rparr>]
   \<and> list_all within_cap (knowledgeGroups (kb_run failing_libs (take 7 late_commit)))
   \<and> length (urls (knowledgeGroups (kb_run failing_libs late_commit) ! 1)) = 20
   \<and> length (files (knowledgeGroups (kb_run failing_libs late_commit) ! 1)) = 1
   \<and> \<not> list_all within_cap (knowledgeGroups (kb_run failing_libs late_commit))"
proof -
  note r = late_commit_states [of failing_libs]
  have g: "length GEMINI_DOCS_URLS = 9" by (simp add: GEMINI_DOCS_URLS_def)
  have a: "list_all within_cap (knowledgeGroups (kb_run failing_libs (take 6 late_commit)))"
    by (simp add: r(2) within_cap_def g length_capabilities_urls MAX_SOURCES_def)
  have b: "length (currentUrls (activeGroupId (kb_run failing_libs (take 5 late_commit)))
                         (knowledgeGroups (kb_run failing_libs (take 5 late_commit)))) = 19"
    by (simp add: r(1) currentUrls_def activeGroup_def overview_not_capabilities
          length_capabilities_urls)
  have c: "list_all within_cap (knowledgeGroups (kb_run failing_libs (take 7 late_commit)))"
    by (simp add: r(3) within_cap_def g length_capabilities_urls MAX_SOURCES_def)
  have d: "length (urls (knowledgeGroups (kb_run failing_libs late_commit) ! 1)) = 20"
    "length (files (knowledgeGroups (kb_run failing_libs late_commit) ! 1)) = 1"
    by (simp_all add: r(4) length_capabilities_urls)
  have e: "\<not> list_all within_cap (knowledgeGroups (kb_run failing_libs late_commit))"
    by (simp add: r(4) within_cap_def length_capabilities_urls MAX_SOURCES_def)
  show ?thesis using a b c d e by (simp add: r(2))
qed


text \<open>
  The names of the files of a group stay distinct as well, which is the condition under
  which adding a name that is present changes nothing.
\<close>

lemma distinct_uniqueFiles: "distinct (map file_name (uniqueFiles xs))"
  by (simp add: uniqueFiles_firstByName distinct_firstByName)

lemma files_distinct_step:
  assumes "list_all (\<lambda>g. distinct (map file_name (files g))) (knowledgeGroups st)"
  shows "list_all (\<lambda>g. distinct (map file_name (files g))) (knowledgeGroups (kb_step L st op))"
proof (cases op)
  case (AddUrl u)
  with assms show ?thesis by (auto simp: handleAddUrl_def list_all_iff)
next
  case (RemoveUrl u)
  with assms show ?thesis by (auto simp: handleRemoveUrl_def list_all_iff)
next
  case (ImportFiles sel)
  with assms show ?thesis by simp
next
  case (ImportSettles i)
  with assms show ?thesis
    by (auto simp: handleFileChange_settled_def handleAddFiles_def list_all_iff
          distinct_uniqueFiles)
next
  case (RemoveFile n)
  with assms show ?thesis
    by (auto simp: handleRemoveFile_def list_all_iff distinct_map_filter)
next
  case (SetGroupId g)
  with assms show ?thesis by simp
qed

lemma files_distinct_foldl:
  "list_all (\<lambda>g. distinct (map file_name (files g))) (knowledgeGroups st) \<Longrightarrow>
   list_all (\<lambda>g. distinct (map file_name (files g))) (knowledgeGroups (foldl (kb_step L) st ops))"
  by (induction ops arbitrary: st) (simp_all add: files_distinct_step)

lemma files_distinct_reachable:
  "list_all (\<lambda>g. distinct (map file_name (files g))) (knowledgeGroups (kb_run L ops))"
  unfolding kb_run_def
  by (rule files_distinct_foldl) (simp add: kb_init_def INITIAL_KNOWLEDGE_GROUPS_def)


section \<open>Rejection of a batch that does not fit\<close>

lemma filesToProcess_length_names:
  "map file_name new = map bf_name sel \<Longrightarrow>
   length (filter (\<lambda>f. file_name f \<notin> file_name ` set fs) new) = length (filesToProcess fs sel)"
proof (induction sel arbitrary: new)
  case Nil
  then show ?case by (simp add: filesToProcess_def)
next
  case (Cons s sel)
  then obtain n new' where new: "new = n # new'" by (cases new) auto
  with Cons.prems have n: "file_name n = bf_name s" and rest: "map file_name new' = map bf_name sel"
    by auto
  have "(file_name n \<notin> file_name ` set fs) = (\<not> list_ex (\<lambda>e. file_name e = bf_name s) fs)"
    using n by (auto simp: list_ex_iff image_iff)
  with Cons.IH [OF rest] show ?case
    unfolding new by (simp add: filesToProcess_def)
qed

lemma admitted_length:
  assumes "map file_name new = map bf_name sel"
  shows "length (uniqueFiles (fs @ new)) \<le> length fs + length (filesToProcess fs sel)"
proof -
  have "length (uniqueFiles (fs @ new))
        = length (firstByName {} fs) + length (firstByName (file_name ` set fs) new)"
    by (simp add: uniqueFiles_firstByName firstByName_append)
  also have "\<dots> \<le> length fs + length (filter (\<lambda>f. file_name f \<notin> file_name ` set fs) new)"
    using length_firstByName [of "{}" fs] length_firstByName_filter [of "file_name ` set fs" new]
    by linarith
  finally show ?thesis using filesToProcess_length_names [OF assms, of fs] by simp
qed

lemma handleFileChange_over_cap:
  assumes "sel \<noteq> []" and "totalSources us fs + length (filesToProcess fs sel) > m"
  shows "fc_read (handleFileChange L us fs m e sel) = []"
    and "fc_onAddFiles (handleFileChange L us fs m e sel) = None"
    and "count_exceeded (fc_error (handleFileChange L us fs m e sel))"
  using assms by (simp_all add: handleFileChange_def Let_def count_exceeded_def)


lemma capabilities_urls:
  "currentUrls (js ''model-capabilities'') INITIAL_KNOWLEDGE_GROUPS = MODEL_CAPABILITIES_URLS"
  by (simp add: currentUrls_def activeGroup_def INITIAL_KNOWLEDGE_GROUPS_def js_def)

lemma capabilities_files:
  "currentFiles (js ''model-capabilities'') INITIAL_KNOWLEDGE_GROUPS = []"
  by (simp add: currentFiles_def activeGroup_def INITIAL_KNOWLEDGE_GROUPS_def js_def)


lemma capabilities_state_simps:
  "activeGroupId capabilities_state = js ''model-capabilities''"
  "knowledgeGroups capabilities_state = INITIAL_KNOWLEDGE_GROUPS"
  "pendingImports capabilities_state = []"
  by (simp_all add: capabilities_state_def kb_init_def)

text \<open>
  C3. A non-empty selection does not fit when the sources of the active group plus the
  pending files (the selected files whose name is not yet in the group,
  \<open>filesToProcess\<close>) are more than 20, or, which implies it, when admitting every
  selected file would leave the group with more than 20 sources. Then
  \<open>handleFileChange\<close> starts no reader, does not call \<open>onAddFiles\<close>, sets one of its two
  count errors, the groups are unchanged and no import is left waiting.
\<close>

theorem batch_over_cap_rejected:
  assumes "selectedFiles \<noteq> []"
    and "totalSources (currentUrls (activeGroupId st) (knowledgeGroups st))
                      (currentFiles (activeGroupId st) (knowledgeGroups st))
           + length (filesToProcess (currentFiles (activeGroupId st) (knowledgeGroups st)) selectedFiles)
         > MAX_SOURCES
         \<or> (\<exists>new. map file_name new = map bf_name selectedFiles \<and>
                length (currentUrls (activeGroupId st) (knowledgeGroups st))
                + length (uniqueFiles (currentFiles (activeGroupId st) (knowledgeGroups st) @ new))
                > MAX_SOURCES)"
  shows "fc_read (handleFileChange L (currentUrls (activeGroupId st) (knowledgeGroups st))
                    (currentFiles (activeGroupId st) (knowledgeGroups st)) MAX_SOURCES err selectedFiles) = []
       \<and> fc_onAddFiles (handleFileChange L (currentUrls (activeGroupId st) (knowledgeGroups st))
                    (currentFiles (activeGroupId st) (knowledgeGroups st)) MAX_SOURCES err selectedFiles) = None
       \<and> count_exceeded (fc_error (handleFileChange L (currentUrls (activeGroupId st) (knowledgeGroups st))
                    (currentFiles (activeGroupId st) (knowledgeGroups st)) MAX_SOURCES err selectedFiles))
       \<and> knowledgeGroups (kb_step L st (ImportFiles selectedFiles)) = knowledgeGroups st
       \<and> pendingImports (kb_step L st (ImportFiles selectedFiles)) = pendingImports st"
proof -
  let ?us = "currentUrls (activeGroupId st) (knowledgeGroups st)"
  let ?fs = "currentFiles (activeGroupId st) (knowledgeGroups st)"
  have over: "totalSources ?us ?fs + length (filesToProcess ?fs selectedFiles) > MAX_SOURCES"
  proof -
    from assms(2) show ?thesis
    proof
      assume "MAX_SOURCES < totalSources ?us ?fs + length (filesToProcess ?fs selectedFiles)"
      then show ?thesis .
    next
      assume "\<exists>new. map file_name new = map bf_name selectedFiles \<and>
                length ?us + length (uniqueFiles (?fs @ new)) > MAX_SOURCES"
      then obtain new where n: "map file_name new = map bf_name selectedFiles"
        and big: "length ?us + length (uniqueFiles (?fs @ new)) > MAX_SOURCES" by blast
      from admitted_length [OF n, of ?fs] big show ?thesis by (simp add: totalSources_def)
    qed
  qed
  note r = handleFileChange_over_cap [OF assms(1) over]
  have "knowledgeGroups (kb_step L st (ImportFiles selectedFiles)) = knowledgeGroups st"
    and "pendingImports (kb_step L st (ImportFiles selectedFiles)) = pendingImports st"
    using r(2) [of L None] by (simp_all add: handleFileChange_awaits_def)
  with r [of L err] show ?thesis by simp
qed


theorem batch_over_cap_rejected_witness:
  "six_files \<noteq> [] \<and>
   totalSources (currentUrls (activeGroupId capabilities_state) (knowledgeGroups capabilities_state))
                (currentFiles (activeGroupId capabilities_state) (knowledgeGroups capabilities_state))
     + length (filesToProcess
                 (currentFiles (activeGroupId capabilities_state) (knowledgeGroups capabilities_state))
                 six_files)
     > MAX_SOURCES \<and>
   fc_error (handleFileChange failing_libs
               (currentUrls (activeGroupId capabilities_state) (knowledgeGroups capabilities_state))
               (currentFiles (activeGroupId capabilities_state) (knowledgeGroups capabilities_state))
               MAX_SOURCES None six_files)
     = Some (WouldExceedLimit 6 20) \<and>
   knowledgeGroups (kb_step failing_libs capabilities_state (ImportFiles six_files))
     = knowledgeGroups capabilities_state \<and>
   pendingImports (kb_step failing_libs capabilities_state (ImportFiles six_files)) = []"
proof -
  have h1: "six_files \<noteq> []"
    by (simp add: six_files_def)
  have h2: "totalSources (currentUrls (activeGroupId capabilities_state) (knowledgeGroups capabilities_state))
                (currentFiles (activeGroupId capabilities_state) (knowledgeGroups capabilities_state))
     + length (filesToProcess
                 (currentFiles (activeGroupId capabilities_state) (knowledgeGroups capabilities_state))
                 six_files)
     > MAX_SOURCES"
    by (simp add: capabilities_state_simps capabilities_urls capabilities_files
          length_capabilities_urls totalSources_def MAX_SOURCES_def filesToProcess_def
          six_files_def)
  have e: "fc_error (handleFileChange failing_libs
               (currentUrls (activeGroupId capabilities_state) (knowledgeGroups capabilities_state))
               (currentFiles (activeGroupId capabilities_state) (knowledgeGroups capabilities_state))
               MAX_SOURCES None six_files)
     = Some (WouldExceedLimit 6 20)"
    by (simp add: capabilities_state_simps capabilities_urls capabilities_files
          length_capabilities_urls totalSources_def MAX_SOURCES_def filesToProcess_def
          six_files_def handleFileChange_def)
  show ?thesis
    using h1 h2 e batch_over_cap_rejected [OF h1 disjI1 [OF h2], of failing_libs None]
    by (simp add: capabilities_state_simps(3))
qed


section \<open>Files with an extension that has no case of its own\<close>

text \<open>
  C8, as the code has it. A file whose extension is none of docx, xlsx, pdf, the ten
  text extensions, doc and pptx is read with \<open>readAsText\<close> and is never rejected as an
  unsupported format. When the read delivers a non-empty text, the file resolves to a
  \<open>ManagedFile\<close> with exactly that text. When it delivers the empty string the file is
  rejected (\<open>Could not read\<close>), and when the reader fails it is rejected
  (\<open>Error reading\<close>).
\<close>

theorem unknown_extension_taken_as_text:
  assumes "fileExtension (bf_name file) \<notin> set handled_extensions"
  shows "read_mode_of (fileExtension (bf_name file)) = AsText
       \<and> (\<forall>ext. processFile L file \<noteq> Inl (NotSupported ext))
       \<and> (\<forall>t. bf_text file = Some t \<and> t \<noteq> [] \<longrightarrow>
             processFile L file = Inr \<lparr>file_name = bf_name file, file_content = t\<rparr>)
       \<and> (bf_text file = Some [] \<longrightarrow> processFile L file = Inl (CouldNotRead (bf_name file)))
       \<and> (bf_text file = None \<longrightarrow> processFile L file = Inl (ErrorReading (bf_name file)))"
  using assms
  by (auto simp: handled_extensions_def processFile_def read_mode_of_def onload_text_def
        resolve_text_def Let_def split: option.splits)


theorem unknown_extension_taken_as_text_witness:
  "fileExtension (bf_name \<lparr>bf_name = js ''notes.log'', bf_text = Some (js ''hello''), bf_buffer = None\<rparr>)
     \<notin> set handled_extensions
   \<and> processFile failing_libs \<lparr>bf_name = js ''notes.log'', bf_text = Some (js ''hello''), bf_buffer = None\<rparr>
     = Inr \<lparr>file_name = js ''notes.log'', file_content = js ''hello''\<rparr>"
proof -
  have h: "fileExtension (bf_name \<lparr>bf_name = js ''notes.log'', bf_text = Some (js ''hello''), bf_buffer = None\<rparr>)
     \<notin> set handled_extensions"
    by code_simp
  have ne: "js ''hello'' \<noteq> []" by (simp add: js_def)
  show ?thesis
    using h ne unknown_extension_taken_as_text [OF h, of failing_libs] by simp
qed



text \<open>
  The specification words this for every such file, as if each gave a \<open>ManagedFile\<close>.
  An empty file \<open>notes.log\<close> has an extension outside the handled set and is rejected.
\<close>

theorem empty_file_counterexample:
  "fileExtension (bf_name \<lparr>bf_name = js ''notes.log'', bf_text = Some [], bf_buffer = None\<rparr>)
     \<notin> set handled_extensions
   \<and> processFile failing_libs \<lparr>bf_name = js ''notes.log'', bf_text = Some [], bf_buffer = None\<rparr>
     = Inl (CouldNotRead (js ''notes.log''))"
  by code_simp



section \<open>Suggestions inside a fenced block\<close>

lemma star_greedy_dropWhile:
  "k (dropWhile p s) = Some r \<Longrightarrow> star_greedy p s k = Some r"
  by (induction s) auto

lemma opt_greedy_skip:
  "(case s of [] \<Rightarrow> True | c # _ \<Rightarrow> c \<noteq> ch) \<Longrightarrow> opt_greedy ch s k = k s"
  by (auto simp: opt_greedy_def split: list.splits)

lemma star_lazy_first:
  assumes "k (cap @ xs) ys = Some r"
    and "\<And>pre z zs. xs = pre @ z # zs \<Longrightarrow> k (cap @ pre) (z # zs @ ys) = None"
  shows "star_lazy cap (xs @ ys) k = Some r"
  using assms
proof (induction xs arbitrary: cap)
  case Nil
  then show ?case by (cases ys) auto
next
  case (Cons x xs)
  have first: "k cap (x # xs @ ys) = None"
    using Cons.prems(2) [of "[]" x xs] by simp
  have "star_lazy (cap @ [x]) (xs @ ys) k = Some r"
  proof (rule Cons.IH)
    show "k ((cap @ [x]) @ xs) ys = Some r" using Cons.prems(1) by simp
  next
    fix pre z zs assume "xs = pre @ z # zs"
    then have "x # xs = (x # pre) @ z # zs" by simp
    from Cons.prems(2) [OF this] show "k ((cap @ [x]) @ pre) (z # zs @ ys) = None" by simp
  qed
  with first show ?case by simp
qed

lemma not_space_96: "\<not> is_space 96" by (simp add: is_space_def)
lemma not_word_10: "\<not> is_word 10" by (simp add: is_word_def)
lemma space_10: "is_space 10" by (simp add: is_space_def)

lemma dropWhile_space_fence: "list_all is_space ws \<Longrightarrow> dropWhile is_space (ws @ fence) = fence"
  by (induction ws) (simp_all add: fence_def not_space_96)

lemma closing_inner_ok:
  "list_all is_space ws \<Longrightarrow>
   star_greedy is_space (ws @ fence) (\<lambda>r6. if r6 = fence then Some g else None) = Some g"
  by (rule star_greedy_dropWhile) (simp add: dropWhile_space_fence)

lemma closing_ok: "list_all is_space ws \<Longrightarrow> closing g (ws @ fence) = Some g"
proof (cases ws)
  case Nil
  assume "list_all is_space ws"
  then show ?thesis using Nil closing_inner_ok [of "[]" g]
    by (simp add: closing_def opt_greedy_def fence_def)
next
  case (Cons w ws')
  assume a: "list_all is_space ws"
  then have a': "list_all is_space ws'" using Cons by simp
  show ?thesis
    using closing_inner_ok [OF a, of g] closing_inner_ok [OF a', of g] Cons
    by (simp add: closing_def opt_greedy_def)
qed

lemma star_space_fail:
  "\<not> (\<exists>ws. list_all is_space ws \<and> r = ws @ fence) \<Longrightarrow>
   star_greedy is_space r (\<lambda>r6. if r6 = fence then Some g else None) = None"
proof (induction r)
  case Nil
  then show ?case by (auto simp: fence_def)
next
  case (Cons c cs)
  have here: "c # cs \<noteq> fence"
  proof
    assume "c # cs = fence"
    then have "list_all is_space [] \<and> c # cs = [] @ fence" by simp
    with Cons.prems show False by blast
  qed
  show ?case
  proof (cases "is_space c")
    case True
    have "\<not> (\<exists>ws. list_all is_space ws \<and> cs = ws @ fence)"
    proof
      assume "\<exists>ws. list_all is_space ws \<and> cs = ws @ fence"
      then obtain ws where "list_all is_space ws" "cs = ws @ fence" by blast
      then have "list_all is_space (c # ws) \<and> c # cs = (c # ws) @ fence" using True by simp
      with Cons.prems show False by blast
    qed
    from Cons.IH [OF this] here True show ?thesis by simp
  next
    case False
    with here show ?thesis by simp
  qed
qed

lemma closing_fail:
  assumes "\<not> (\<exists>ws. list_all is_space ws \<and> r = ws @ fence)"
  shows "closing g r = None"
proof (cases r)
  case Nil
  then show ?thesis using star_space_fail [OF assms, of g] by (simp add: closing_def opt_greedy_def)
next
  case (Cons c cs)
  have tail: "c = 10 \<Longrightarrow> \<not> (\<exists>ws. list_all is_space ws \<and> cs = ws @ fence)"
  proof
    assume c: "c = 10" and "\<exists>ws. list_all is_space ws \<and> cs = ws @ fence"
    then obtain ws where "list_all is_space ws" "cs = ws @ fence" by blast
    then have "list_all is_space (c # ws) \<and> r = (c # ws) @ fence"
      using Cons c space_10 by simp
    with assms show False by blast
  qed
  show ?thesis
    using star_space_fail [OF assms, of g] star_space_fail [OF tail, of g] Cons
    by (auto simp add: closing_def opt_greedy_def simp del: star_greedy.simps)
qed

lemma trim_decompose:
  "\<exists>W. list_all is_space W \<and> dropWhile is_space s = trim s @ W"
proof -
  let ?A = "dropWhile is_space s"
  have "rev ?A = takeWhile is_space (rev ?A) @ dropWhile is_space (rev ?A)" by simp
  then have "?A = rev (dropWhile is_space (rev ?A)) @ rev (takeWhile is_space (rev ?A))"
    by (metis rev_append rev_rev_ident)
  moreover have "list_all is_space (rev (takeWhile is_space (rev ?A)))"
    by (simp add: list_all_iff) (meson set_takeWhileD)
  ultimately show ?thesis unfolding trim_def by blast
qed

lemma trim_last: "trim s \<noteq> [] \<Longrightarrow> \<not> is_space (last (trim s))"
proof -
  assume ne: "trim s \<noteq> []"
  let ?B = "dropWhile is_space (rev (dropWhile is_space s))"
  from ne have "?B \<noteq> []" by (simp add: trim_def)
  then have "\<not> is_space (hd ?B)" by (rule hd_dropWhile)
  moreover have "last (trim s) = hd ?B" using \<open>?B \<noteq> []\<close> by (simp add: trim_def last_rev)
  ultimately show ?thesis by simp
qed

lemma trim_empty_iff: "trim s = [] \<longleftrightarrow> list_all is_space s"
proof -
  have "trim s = [] \<longleftrightarrow> (\<forall>x\<in>set (dropWhile is_space s). is_space x)"
    by (simp add: trim_def dropWhile_eq_Nil_conv)
  also have "\<dots> \<longleftrightarrow> dropWhile is_space s = []"
    using hd_dropWhile [of is_space s]
    by (cases "dropWhile is_space s") (auto dest: set_dropWhileD)
  also have "\<dots> \<longleftrightarrow> list_all is_space s"
    by (simp add: dropWhile_eq_Nil_conv list_all_iff)
  finally show ?thesis .
qed

lemma trim_hd:
  assumes "dropWhile is_space s = c # cs"
  shows "\<exists>t. trim s = c # t"
proof -
  obtain W where W: "list_all is_space W" "dropWhile is_space s = trim s @ W"
    using trim_decompose by blast
  have nc: "\<not> is_space c" using assms hd_dropWhile [of is_space s] by auto
  show ?thesis
  proof (cases "trim s")
    case Nil
    with W assms have "list_all is_space (c # cs)" by simp
    with nc show ?thesis by simp
  next
    case (Cons a t)
    with W assms show ?thesis by simp
  qed
qed

lemma trim_fixed:
  assumes "s \<noteq> []" "\<not> is_space (hd s)" "\<not> is_space (last s)"
  shows "trim s = s"
proof -
  have a: "dropWhile is_space s = s" using assms by (cases s) auto
  have "rev s \<noteq> []" "\<not> is_space (hd (rev s))" using assms by (simp_all add: hd_rev)
  then have "dropWhile is_space (rev s) = rev s" by (cases "rev s") auto
  with a show ?thesis by (simp add: trim_def)
qed

lemma trim_trim: "trim (trim s) = trim s"
proof (cases "trim s = []")
  case True
  show ?thesis unfolding True by (simp add: trim_def)
next
  case False
  obtain c cs where d: "dropWhile is_space s = c # cs"
    using False by (cases "dropWhile is_space s") (auto simp: trim_def)
  then obtain t where t: "trim s = c # t" using trim_hd by blast
  have "\<not> is_space c" using d hd_dropWhile [of is_space s] by auto
  then have "\<not> is_space (hd (trim s))" using t by simp
  with False trim_last [OF False] show ?thesis by (simp add: trim_fixed)
qed

lemma trim_of_nonspace_hd:
  assumes "dropWhile is_space X = c # cs"
  shows "trim X = trim (c # cs)"
proof -
  have "\<not> is_space c" using assms hd_dropWhile [of is_space X] by auto
  then have "dropWhile is_space (c # cs) = c # cs" by simp
  then show ?thesis using assms by (simp add: trim_def)
qed

text \<open>The match on any text between two fences that holds more than a tag and white space.\<close>

lemma fence_group2:
  assumes body: "dropWhile is_space (dropWhile is_word X) = c # cs"
  shows "fenceRegex_group2 (fence @ X @ fence) = Some (trim (dropWhile is_word X))"
proof -
  let ?X1 = "dropWhile is_word X"
  let ?T = "trim ?X1"
  obtain W where W: "list_all is_space W" "dropWhile is_space ?X1 = ?T @ W"
    using trim_decompose by blast
  obtain t where t: "?T = c # t" using trim_hd [OF body] by blast
  have nc: "\<not> is_space c" using body hd_dropWhile [of is_space ?X1] by auto
  have ne: "?T \<noteq> []" using t by simp
  let ?K = "\<lambda>group2 r4. opt_greedy 10 r4 (\<lambda>r5. star_greedy is_space r5
               (\<lambda>r6. if r6 = fence then Some group2 else None))"
  have K: "?K = closing" by (simp add: closing_def fun_eq_iff)
  \<comment> \<open>the lazy group stops where only white space is left before the closing fence\<close>
  have lazy: "star_lazy [] (?T @ (W @ fence)) closing = Some ?T"
  proof (rule star_lazy_first)
    from closing_ok [OF W(1), of ?T] show "closing ([] @ ?T) (W @ fence) = Some ?T"
      by simp
  next
    fix pre z zs assume split: "?T = pre @ z # zs"
    have "\<not> (\<exists>ws. list_all is_space ws \<and> z # zs @ W @ fence = ws @ fence)"
    proof
      assume "\<exists>ws. list_all is_space ws \<and> z # zs @ W @ fence = ws @ fence"
      then obtain ws where ws: "list_all is_space ws" "z # zs @ W @ fence = ws @ fence"
        by blast
      then have "ws = (z # zs) @ W" by simp
      with ws(1) have "list_all is_space (z # zs)" by simp
      then have "is_space (last (z # zs))" by (metis last_in_set list.distinct(1) list_all_iff)
      moreover have "last ?T = last (z # zs)" using split by simp
      ultimately show False using trim_last [OF ne] by simp
    qed
    from closing_fail [OF this] show "closing ([] @ pre) (z # zs @ W @ fence) = None" by simp
  qed
  \<comment> \<open>after the tag and the white space the optional newline has nothing to take\<close>
  have cin: "c \<in> set ?X1" using body set_dropWhileD [of c is_space ?X1] by simp
  have "dropWhile is_space (?X1 @ fence) = dropWhile is_space ?X1 @ fence"
    by (rule dropWhile_append1 [of c ?X1 is_space, OF cin nc])
  then have r2: "dropWhile is_space (?X1 @ fence) = ?T @ (W @ fence)"
    using W(2) by simp
  have step3: "opt_greedy 10 (?T @ (W @ fence)) (\<lambda>r3. star_lazy [] r3 closing) = Some ?T"
  proof -
    have "(case ?T @ (W @ fence) of [] \<Rightarrow> True | x # _ \<Rightarrow> x \<noteq> 10)"
      using t nc space_10 by auto
    from opt_greedy_skip [OF this, of "\<lambda>r3. star_lazy [] r3 closing"] lazy show ?thesis by simp
  qed
  have step2: "star_greedy is_space (?X1 @ fence)
                 (\<lambda>r2. opt_greedy 10 r2 (\<lambda>r3. star_lazy [] r3 closing)) = Some ?T"
    by (rule star_greedy_dropWhile) (simp only: r2 step3)
  have x1: "?X1 \<noteq> []"
  proof
    assume "?X1 = []"
    then have "dropWhile is_space ?X1 = []" by (simp only: dropWhile.simps)
    with body show False by simp
  qed
  have "hd ?X1 \<in> set ?X1" using x1 by (rule hd_in_set)
  then have hin1: "hd ?X1 \<in> set X" by (rule set_dropWhileD)
  have hin2: "\<not> is_word (hd ?X1)" using x1 by (rule hd_dropWhile)
  note hin = hin1 hin2
  have r1: "dropWhile is_word (X @ fence) = ?X1 @ fence"
    by (rule dropWhile_append1 [of "hd ?X1" X is_word, OF hin])
  have step1: "star_greedy is_word (X @ fence)
                 (\<lambda>r1. star_greedy is_space r1
                    (\<lambda>r2. opt_greedy 10 r2 (\<lambda>r3. star_lazy [] r3 closing))) = Some ?T"
    by (rule star_greedy_dropWhile) (simp only: r1 step2)
  have pre: "take 3 (fence @ X @ fence) = fence" "drop 3 (fence @ X @ fence) = X @ fence"
    by (simp_all add: fence_def)
  show ?thesis
    unfolding fenceRegex_group2_def pre K using step1 by simp
qed

lemma trim_padded:
  assumes "dropWhile is_space J = c # cs"
  shows "trim ([10] @ J @ [10]) = trim J"
proof -
  have nc: "\<not> is_space c" using assms hd_dropWhile [of is_space J] by auto
  have cin: "c \<in> set J" using assms set_dropWhileD [of c is_space J] by simp
  have a: "dropWhile is_space ([10] @ J @ [10]) = dropWhile is_space J @ [10]"
    using dropWhile_append1 [of c J is_space "[10]", OF cin nc] space_10 by simp
  have cin': "c \<in> set (rev (dropWhile is_space J))" using assms by simp
  have "dropWhile is_space (rev (dropWhile is_space J @ [10]))
        = dropWhile is_space (rev (dropWhile is_space J))"
    using space_10 by simp
  with a show ?thesis by (simp add: trim_def)
qed

lemma fenced_group2:
  assumes tag: "list_all is_word tag" and ok: "payload_ok J"
  shows "fenceRegex_group2 (fenced tag J) = Some (trim J)"
proof -
  obtain c cs where d: "dropWhile is_space J = c # cs"
    using ok by (auto simp: payload_ok_def split: list.splits)
  have nc: "\<not> is_space c" using d hd_dropWhile [of is_space J] by auto
  have cin: "c \<in> set J" using d set_dropWhileD [of c is_space J] by simp
  have r1: "dropWhile is_word (tag @ [10] @ J @ [10]) = [10] @ J @ [10]"
    using tag not_word_10 by (induction tag) simp_all
  have "dropWhile is_space ([10] @ J @ [10]) = dropWhile is_space J @ [10]"
    using dropWhile_append1 [of c J is_space "[10]", OF cin nc] space_10 by simp
  then have body: "dropWhile is_space (dropWhile is_word (tag @ [10] @ J @ [10])) = c # (cs @ [10])"
    using d r1 by simp
  have "fenced tag J = fence @ (tag @ [10] @ J @ [10]) @ fence" by (simp add: fenced_def)
  with fence_group2 [OF body] r1 trim_padded [OF d] show ?thesis by simp
qed

lemma unfenced_group2:
  assumes "payload_ok J"
  shows "fenceRegex_group2 (trim J) = None"
proof -
  obtain c cs where d: "dropWhile is_space J = c # cs" and c96: "c \<noteq> 96"
    using assms by (auto simp: payload_ok_def split: list.splits)
  obtain t where t: "trim J = c # t" using trim_hd [OF d] by blast
  show ?thesis using c96 by (simp add: fenceRegex_group2_def t fence_def)
qed

lemma trim_fenced: "trim (fenced tag J) = fenced tag J"
proof (rule trim_fixed)
  show "fenced tag J \<noteq> []" by (simp add: fenced_def fence_def)
  show "\<not> is_space (hd (fenced tag J))" by (simp add: fenced_def fence_def not_space_96)
  have "last (fenced tag J) = 96"
    by (simp add: fenced_def fence_def)
  then show "\<not> is_space (last (fenced tag J))" by (simp add: not_space_96)
qed


text \<open>Every text that the JSON reader accepts starts, after white space, with no backtick.\<close>

lemma parse_number_first:
  "parse_number (c # cs) = Some x \<Longrightarrow> c = 45 \<or> is_digit c"
  by (cases "c = 45") (auto simp: parse_number_def Let_def split: if_splits)

lemma value_body_first:
  assumes "value_body rec s = Some x"
  shows "\<exists>c cs. dropWhile json_ws s = c # cs \<and> (c \<in> {123, 91, 34, 116, 102, 110, 45} \<or> is_digit c)"
proof (cases "dropWhile json_ws s")
  case Nil
  with assms show ?thesis by (simp add: value_body_def)
next
  case (Cons c cs)
  have "c \<in> {123, 91, 34, 116, 102, 110, 45} \<or> is_digit c"
  proof (rule ccontr)
    assume n: "\<not> (c \<in> {123, 91, 34, 116, 102, 110, 45} \<or> is_digit c)"
    then have "parse_number (c # cs) = None"
      using parse_number_first [of c cs] by (cases "parse_number (c # cs)") auto
    with assms Cons n show False
      by (auto simp: value_body_def js_def split: if_splits)
  qed
  with Cons show ?thesis by simp
qed

lemma dropWhile_weaker:
  assumes "dropWhile P xs = c # cs" and "\<not> Q c" and "\<And>x. Q x \<Longrightarrow> x \<in> set xs \<Longrightarrow> \<not> P x \<Longrightarrow> False \<or> True"
    and "\<And>x. P x \<Longrightarrow> Q x"
  shows "dropWhile Q xs = c # cs"
  using assms(1,2,4) by (induction xs) (auto split: if_splits)

lemma JSON_text_payload_ok:
  assumes "JSON_parse J = Some v"
  shows "payload_ok J"
proof -
  from assms obtain x where "parse_json (Suc (2 * length J + 1)) PValue J = Some x"
    by (auto simp: JSON_parse_def split: option.splits)
  then have "value_body (parse_json (2 * length J + 1)) J = Some x" by simp
  from value_body_first [OF this] obtain c cs where
    d: "dropWhile json_ws J = c # cs" and c: "c \<in> {123, 91, 34, 116, 102, 110, 45} \<or> is_digit c"
    by blast
  have ns: "\<not> is_space c" using c by (auto simp: is_space_def is_digit_def)
  have "dropWhile is_space J = c # cs"
    using d ns by (rule dropWhile_weaker) (auto simp: json_ws_def is_space_def)
  moreover have "c \<noteq> 96" using c by (auto simp: is_digit_def)
  ultimately show ?thesis by (simp add: payload_ok_def)
qed

lemma two_suggestions_parsed:
  "JSON_parse two_suggestions
   = Some (JObject [(js ''suggestions'', JArray [JString (js ''A?''), JString (js ''B?'')])])"
  by code_simp

lemma two_suggestions_ok: "payload_ok two_suggestions"
  by (simp add: payload_ok_def two_suggestions_def js_def is_space_def)

lemma two_suggestions_trim: "trim two_suggestions = two_suggestions"
  by (rule trim_fixed) (simp_all add: two_suggestions_def js_def is_space_def)

lemma two_suggestions_read:
  "parseSuggestions JSON_parse two_suggestions = ([js ''A?'', js ''B?''], None)"
proof -
  have ne: "two_suggestions \<noteq> []" by (simp add: two_suggestions_def js_def)
  show ?thesis
    unfolding parseSuggestions_def
    by (simp add: ne two_suggestions_trim unfenced_group2 [OF two_suggestions_ok, unfolded two_suggestions_trim]
          two_suggestions_parsed property_of_def Let_def)
qed

lemma word_json: "list_all is_word (js ''json'')"
  by (simp add: js_def is_word_def)

lemma trim_trailing:
  assumes "X \<noteq> []" "\<not> is_space (hd X)" "\<not> is_space (last X)" "list_all is_space W"
  shows "trim (X @ W) = X"
proof -
  have a: "dropWhile is_space (X @ W) = X @ W" using assms(1,2) by (cases X) auto
  have b: "dropWhile is_space (rev W @ rev X) = dropWhile is_space (rev X)"
    by (rule dropWhile_append2) (use assms(4) in \<open>simp add: list_all_iff\<close>)
  have "rev X \<noteq> []" "\<not> is_space (hd (rev X))" using assms(1,3) by (simp_all add: hd_rev)
  then have c: "dropWhile is_space (rev X) = rev X" by (cases "rev X") auto
  show ?thesis by (simp add: trim_def a b c)
qed

lemma cpp_group2_props:
  "cpp_group2 \<noteq> []" "\<not> is_space (hd cpp_group2)" "\<not> is_space (last cpp_group2)"
  by (simp_all add: cpp_group2_def two_suggestions_def js_def is_space_def)

lemma cpp_body:
  "dropWhile is_word (js ''c++'' @ [10] @ two_suggestions @ [10]) = cpp_group2 @ [10]"
  by (simp add: cpp_group2_def js_def is_word_def)

lemma cpp_match:
  "fenceRegex_group2 (fenced (js ''c++'') two_suggestions) = Some cpp_group2"
proof -
  have "dropWhile is_space (cpp_group2 @ [10]) = 43 # tl (cpp_group2 @ [10])"
    by (simp add: cpp_group2_def js_def is_space_def)
  then have body: "dropWhile is_space (dropWhile is_word (js ''c++'' @ [10] @ two_suggestions @ [10]))
              = 43 # tl (cpp_group2 @ [10])"
    by (simp only: cpp_body)
  have t: "trim (cpp_group2 @ [10]) = cpp_group2"
    by (rule trim_trailing) (simp_all add: cpp_group2_props space_10)
  have "fenced (js ''c++'') two_suggestions = fence @ (js ''c++'' @ [10] @ two_suggestions @ [10]) @ fence"
    by (simp add: fenced_def)
  with fence_group2 [OF body] show ?thesis by (simp only: cpp_body t)
qed

lemma cpp_not_json: "JSON_parse cpp_group2 = None"
  by code_simp

lemma cpp_read:
  "parseSuggestions JSON_parse (fenced (js ''c++'') two_suggestions) = ([], Some ParseError)"
proof -
  have ne: "fenced (js ''c++'') two_suggestions \<noteq> []" by (simp add: fenced_def fence_def)
  have t: "trim cpp_group2 = cpp_group2"
    by (rule trim_fixed) (rule cpp_group2_props)+
  show ?thesis
    unfolding parseSuggestions_def
    by (simp add: ne trim_fenced cpp_match cpp_group2_props t cpp_not_json Let_def)
qed


text \<open>
  C7, as the code has it. Let the tag consist of word characters (letters, digits,
  underscore; it may be empty) and let the payload have a first character after white
  space that is not a backtick, as every JSON text has. Then, for any JSON parser, the
  reading of the payload wrapped as \<^verbatim>\<open>```tag\<newline>payload\<newline>```\<close> gives the same
  suggestions and the same message as the reading of the payload itself.
\<close>

theorem fenced_parses_like_unfenced:
  assumes "list_all is_word tag" and "payload_ok J"
  shows "parseSuggestions parse (fenced tag J) = parseSuggestions parse J"
proof -
  obtain c cs where d: "dropWhile is_space J = c # cs"
    using assms(2) by (auto simp: payload_ok_def split: list.splits)
  obtain t where t: "trim J = c # t" using trim_hd [OF d] by blast
  have J: "J \<noteq> []" using d by auto
  have F: "fenced tag J \<noteq> []" by (simp add: fenced_def fence_def)
  have l: "parseSuggestions parse (fenced tag J)
           = (case parse (trim J) of
                None \<Rightarrow> ([], Some ParseError)
              | Some parsed \<Rightarrow>
                  (case property_of (js ''suggestions'') parsed of
                     Some (JArray xs) \<Rightarrow>
                       (concat (map (\<lambda>x. case x of JString str \<Rightarrow> [str] | _ \<Rightarrow> []) xs), None)
                   | _ \<Rightarrow> ([], Some UnexpectedFormat)))"
    unfolding parseSuggestions_def
    by (simp add: F trim_fenced fenced_group2 [OF assms] t [symmetric] trim_trim Let_def)
       (simp add: t)
  have r: "parseSuggestions parse J
           = (case parse (trim J) of
                None \<Rightarrow> ([], Some ParseError)
              | Some parsed \<Rightarrow>
                  (case property_of (js ''suggestions'') parsed of
                     Some (JArray xs) \<Rightarrow>
                       (concat (map (\<lambda>x. case x of JString str \<Rightarrow> [str] | _ \<Rightarrow> []) xs), None)
                   | _ \<Rightarrow> ([], Some UnexpectedFormat)))"
    unfolding parseSuggestions_def
    by (simp add: J unfenced_group2 [OF assms(2)] Let_def)
  show ?thesis by (simp only: l r)
qed


theorem fenced_parses_like_unfenced_witness:
  "parseSuggestions JSON_parse (fenced (js ''json'') two_suggestions) = ([js ''A?'', js ''B?''], None)"
  using fenced_parses_like_unfenced [OF word_json two_suggestions_ok, of JSON_parse]
    two_suggestions_read
  by simp

text \<open>
  The specification words this for every language tag. With the tag \<open>c++\<close> the
  pattern takes \<open>c\<close> as the tag and leaves \<open>++\<close> in front of the payload, which then does not parse:
  the fenced text yields no suggestion and the parse-error message, the payload alone
  yields both suggestions.
\<close>

theorem fenced_cpp_counterexample:
  "parseSuggestions JSON_parse (fenced (js ''c++'') two_suggestions) = ([], Some ParseError)
   \<and> parseSuggestions JSON_parse two_suggestions = ([js ''A?'', js ''B?''], None)"
  using cpp_read two_suggestions_read by simp



section \<open>A send without text and without images\<close>

text \<open>
  C5. When the query is empty or holds white space only and no image is attached,
  \<open>handleSendMessage\<close> returns the state it was given and starts no remote call,
  whatever the flags, the credential and the clock are; as an event of the transition
  system the send changes nothing; and \<open>handleSend\<close> of the chat input leaves the input
  as it is and does not call \<open>onSendMessage\<close>.
\<close>

theorem blank_send_changes_nothing:
  assumes "blank query"
  shows "handleSendMessage apiKey now query [] st = (st, None)
       \<and> sys_step E s (Send query [], now) = s
       \<and> handleSend busy \<lparr>userQuery = query, attachedImages = [], isManuallyExpanded = expanded\<rparr>
           = (\<lparr>userQuery = query, attachedImages = [], isManuallyExpanded = expanded\<rparr>, None)"
proof -
  have t: "trim query = []" using assms by (simp add: trim_empty_iff blank_def)
  have a: "handleSendMessage apiKey now query [] st = (st, None)" for apiKey now and st :: "'a app_state_scheme"
    by (simp add: handleSendMessage_def t)
  have a': "handleSendMessage (env_apiKey E) now query [] (app s) = (app s, None)"
    by (simp add: handleSendMessage_def t)
  have b: "sys_step E s (Send query [], now) = s"
    by (simp add: sys_step_def a' opt_list_def)
  have c: "handleSend busy \<lparr>userQuery = query, attachedImages = [], isManuallyExpanded = expanded\<rparr>
           = (\<lparr>userQuery = query, attachedImages = [], isManuallyExpanded = expanded\<rparr>, None)"
    by (simp add: handleSend_def t)
  from a b c show ?thesis by simp
qed

theorem blank_send_changes_nothing_witness:
  "handleSendMessage (Some (js ''key'')) 2000 (js ''  '' @ [9, 10, 160]) [] idle_state = (idle_state, None)"
proof -
  have "blank (js ''  '' @ [9, 10, 160])" by (simp add: blank_def js_def is_space_def)
  from blank_send_changes_nothing [OF this, of "Some (js ''key'')" 2000 idle_state]
  show ?thesis by simp
qed



section \<open>Suggestions without sources\<close>

lemma canned_text:
  "JSON_stringify
     (JObject [(js ''suggestions'',
                JArray [JString (js ''Add URLs or import files to get suggestions.'')])])
   = js ''{\"suggestions\":[\"Add URLs or import files to get suggestions.\"]}''"
  by code_simp


lemma canned_parsed:
  "JSON_parse (js ''{\"suggestions\":[\"Add URLs or import files to get suggestions.\"]}'')
   = Some (JObject [(js ''suggestions'',
                     JArray [JString (js ''Add URLs or import files to get suggestions.'')])])"
  by code_simp

text \<open>
  C10. With no URL and no file, \<open>getInitialSuggestions\<close> is fulfilled with a fixed
  text and sends no request to the remote API, whatever the credential is (also when
  there is none) and whatever the remote API would answer. The text is the JSON object
  whose \<open>suggestions\<close> array holds the one string
  \<open>Add URLs or import files to get suggestions.\<close>
\<close>

theorem no_sources_canned_suggestions:
  "getInitialSuggestions API_KEY remote [] [] modelName
   = (Fulfilled \<lparr>resp_text = js ''{\"suggestions\":[\"Add URLs or import files to get suggestions.\"]}'',
                 resp_urlContextMetadata = None\<rparr>, [])
   \<and> JSON_parse (js ''{\"suggestions\":[\"Add URLs or import files to get suggestions.\"]}'')
     = Some (JObject [(js ''suggestions'',
                       JArray [JString (js ''Add URLs or import files to get suggestions.'')])])"
  unfolding getInitialSuggestions_def canned_text by (simp add: canned_parsed)


section \<open>Invariants of the orchestrator\<close>

lemma not_loading_system [simp]: "\<not> loading (system_message p n t)"
  by (simp add: loading_def system_message_def)

lemma not_loading_user [simp]: "\<not> loading (userMessage n q i)"
  by (simp add: loading_def userMessage_def)

lemma not_loading_terminal [simp]: "\<not> loading (terminal_message p r)"
  by (cases r) (simp_all add: loading_def terminal_message_def)

lemma terminal_id [simp]: "msg_id (terminal_message p r) = msg_id p"
  by (cases r) (simp_all add: terminal_message_def)

lemma fetch_start_fields:
  "isLoading (fst (fetchAndSetInitialSuggestions u f m st)) = isLoading st"
  "chatMessages (fst (fetchAndSetInitialSuggestions u f m st)) = chatMessages st"
  "isFetchingSuggestions (fst (fetchAndSetInitialSuggestions u f m st))
     \<longrightarrow> isFetchingSuggestions st \<or> snd (fetchAndSetInitialSuggestions u f m st) \<noteq> None"
  by (simp_all add: fetchAndSetInitialSuggestions_def)

lemma effect_fields:
  "isLoading (fst (suggestionsEffect k st)) = isLoading st"
  "chatMessages (fst (suggestionsEffect k st)) = chatMessages st"
  "isFetchingSuggestions (fst (suggestionsEffect k st))
     \<longrightarrow> isFetchingSuggestions st \<or> snd (suggestionsEffect k st) \<noteq> None"
  by (auto simp: suggestionsEffect_def fetchAndSetInitialSuggestions_def)

lemma welcome_fields:
  "isLoading (welcomeEffect k n st) = isLoading st"
  "isFetchingSuggestions (welcomeEffect k n st) = isFetchingSuggestions st"
  "list_all (\<lambda>m. \<not> loading m) (chatMessages (welcomeEffect k n st))"
  by (simp_all add: welcomeEffect_def)

lemma kb_step_fields:
  "isLoading (kb_step L st op) = isLoading st"
  "isFetchingSuggestions (kb_step L st op) = isFetchingSuggestions st"
  "chatMessages (kb_step L st op) = chatMessages st"
  by (cases op; simp)+

lemma fetch_settled_fields:
  "isLoading (fetchAndSetInitialSuggestions_settled P n r st) = isLoading st"
  "\<not> isFetchingSuggestions (fetchAndSetInitialSuggestions_settled P n r st)"
  "\<exists>extra. chatMessages (fetchAndSetInitialSuggestions_settled P n r st) = chatMessages st @ extra
           \<and> list_all (\<lambda>m. \<not> loading m) extra"
  by (auto simp: fetchAndSetInitialSuggestions_settled_def
           split: settled.splits prod.splits option.splits suggestion_problem.splits)

lemma opt_list_Nil [simp]: "opt_list x = [] \<longleftrightarrow> x = None"
  by (cases x) (simp_all add: opt_list_def)

lemma inv_Send: "sys_inv s \<Longrightarrow> sys_inv (sys_step E s (Send q i, n))"
  by (auto simp: sys_inv_def sys_step_def handleSendMessage_def opt_list_def)

lemma remove_nth_single: "length xs \<le> 1 \<Longrightarrow> i < length xs \<Longrightarrow> remove_nth i xs = [] \<and> xs = [xs ! i]"
  by (cases xs) (auto simp: remove_nth_def)

lemma inv_SendSettles: "sys_inv s \<Longrightarrow> sys_inv (sys_step E s (SendSettles i r, n))"
proof (cases "i < length (pendingSends s)")
  case False
  assume "sys_inv s"
  with False show ?thesis by (simp add: sys_step_def)
next
  case True
  assume inv: "sys_inv s"
  then have one: "remove_nth i (pendingSends s) = []" "pendingSends s = [pendingSends s ! i]"
    using remove_nth_single [of "pendingSends s" i] True by (simp_all add: sys_inv_def)
  have ids: "\<forall>m\<in>set (chatMessages (app s)). loading m \<longrightarrow> msg_id m = msg_id (sr_placeholder (pendingSends s ! i))"
    using inv one(2) unfolding sys_inv_def by (metis list.set_cases list.inject list.discI set_ConsD empty_iff empty_set)
  show ?thesis
    using inv True one(1) ids
    by (auto simp: sys_inv_def sys_step_def handleSendMessage_settled_def)
qed

lemma inv_SetModel: "sys_inv s \<Longrightarrow> sys_inv (sys_step E s (SetModel m, n))"
proof -
  assume inv: "sys_inv s"
  let ?st = "(app s)\<lparr>selectedModel := m\<rparr>"
  obtain st' rq where e: "suggestionsEffect (env_apiKey E) ?st = (st', rq)" by fastforce
  have f: "isLoading st' = isLoading (app s)" "chatMessages st' = chatMessages (app s)"
    "isFetchingSuggestions st' \<longrightarrow> isFetchingSuggestions (app s) \<or> rq \<noteq> None"
    using effect_fields [of "env_apiKey E" ?st] e by simp_all
  show ?thesis using inv f by (auto simp: sys_inv_def sys_step_def e)
qed

lemma inv_FetchSettles: "sys_inv s \<Longrightarrow> sys_inv (sys_step E s (FetchSettles i r, n))"
proof -
  assume inv: "sys_inv s"
  obtain extra where x: "chatMessages (fetchAndSetInitialSuggestions_settled (env_parse E) n r (app s))
        = chatMessages (app s) @ extra" "list_all (\<lambda>m. \<not> loading m) extra"
    using fetch_settled_fields(3) by blast
  show ?thesis using inv x
    by (auto simp: sys_inv_def sys_step_def fetch_settled_fields(1,2) list_all_iff)
qed

lemma inv_Knowledge: "sys_inv s \<Longrightarrow> sys_inv (sys_step E s (Knowledge op, n))"
proof -
  assume inv: "sys_inv s"
  let ?st1 = "welcomeEffect (env_apiKey E) n (kb_step (env_libs E) (app s) op)"
  obtain st' rq where e: "suggestionsEffect (env_apiKey E) ?st1 = (st', rq)" by fastforce
  have w: "isLoading ?st1 = isLoading (app s)" "isFetchingSuggestions ?st1 = isFetchingSuggestions (app s)"
    "\<forall>m\<in>set (chatMessages ?st1). \<not> loading m"
    using welcome_fields [of "env_apiKey E" n "kb_step (env_libs E) (app s) op"]
    by (simp_all add: kb_step_fields list_all_iff)
  have f: "isLoading st' = isLoading (app s)" "\<forall>m\<in>set (chatMessages st'). \<not> loading m"
    "isFetchingSuggestions st' \<longrightarrow> isFetchingSuggestions (app s) \<or> rq \<noteq> None"
    using effect_fields [of "env_apiKey E" ?st1] e w by simp_all
  show ?thesis using inv f w
    by (auto simp: sys_inv_def sys_step_def e Let_def kb_step_fields)
qed

lemma inv_step: "sys_inv s \<Longrightarrow> sys_inv (sys_step E s ev)"
proof -
  assume inv: "sys_inv s"
  obtain e n where ev: "ev = (e, n)" by (cases ev)
  show ?thesis unfolding ev
    by (cases e) (simp_all only: inv_Send [OF inv] inv_SendSettles [OF inv] inv_SetModel [OF inv]
                     inv_FetchSettles [OF inv] inv_Knowledge [OF inv])
qed

lemma inv_init: "sys_inv (sys_init E n)"
proof -
  let ?st1 = "welcomeEffect (env_apiKey E) n app_init"
  obtain st' rq where e: "suggestionsEffect (env_apiKey E) ?st1 = (st', rq)" by fastforce
  have w: "\<not> isLoading ?st1" "\<not> isFetchingSuggestions ?st1"
    "\<forall>m\<in>set (chatMessages ?st1). \<not> loading m"
    using welcome_fields [of "env_apiKey E" n app_init]
    by (simp_all add: app_init_def list_all_iff)
  have f: "\<not> isLoading st'" "\<forall>m\<in>set (chatMessages st'). \<not> loading m"
    "isFetchingSuggestions st' \<longrightarrow> rq \<noteq> None"
    using effect_fields [of "env_apiKey E" ?st1] e w by simp_all
  show ?thesis using f by (auto simp: sys_inv_def sys_init_def e)
qed

lemma inv_foldl: "sys_inv s \<Longrightarrow> sys_inv (foldl (sys_step E) s evs)"
  by (induction evs arbitrary: s) (simp_all add: inv_step)

lemma inv_run: "sys_inv (sys_run E n evs)"
  unfolding sys_run_def by (rule inv_foldl [OF inv_init])

lemma idle_quiet:
  assumes "s = sys_run E t0 evs" and "\<not> isLoading (app s)"
  shows "\<not> list_ex loading (chatMessages (app s))"
  using inv_run [of E t0 evs] assms by (auto simp: sys_inv_def list_ex_iff)

lemma idle_state_fields:
  "\<not> isLoading idle_state" "\<not> isFetchingSuggestions idle_state"
  "chatMessages idle_state = [system_message (js ''system-welcome-'') 1000 (js ''Welcome'')]"
  by (simp_all add: idle_state_def app_init_def)

lemma hello_not_blank: "\<not> blank (js ''hello'')"
  by (simp add: blank_def js_def is_space_def)



section \<open>Outstanding requests\<close>

lemma effect_starts:
  assumes "truthy k" and "currentUrls (activeGroupId st) (knowledgeGroups st) \<noteq> []"
  shows "suggestionsEffect k st
         = (st\<lparr>isFetchingSuggestions := True, initialQuerySuggestions := []\<rparr>,
            Some \<lparr>fr_urls = currentUrls (activeGroupId st) (knowledgeGroups st),
                  fr_files = currentFiles (activeGroupId st) (knowledgeGroups st),
                  fr_model = selectedModel st\<rparr>)"
  using assms by (simp add: suggestionsEffect_def fetchAndSetInitialSuggestions_def)

lemma overview_id: "group_id (hd INITIAL_KNOWLEDGE_GROUPS) = js ''gemini-overview''"
  by (simp add: INITIAL_KNOWLEDGE_GROUPS_def)

lemma overview_urls:
  "currentUrls (js ''gemini-overview'') INITIAL_KNOWLEDGE_GROUPS = GEMINI_DOCS_URLS"
  by (simp add: currentUrls_def activeGroup_def INITIAL_KNOWLEDGE_GROUPS_def)

lemma docs_urls_nonempty: "GEMINI_DOCS_URLS \<noteq> []"
  by (simp add: GEMINI_DOCS_URLS_def)

lemma demo_key: "truthy (env_apiKey demo_env)"
  by (simp add: demo_env_def truthy_def js_def)

lemma init_fields:
  assumes "truthy (env_apiKey E)"
  shows "length (pendingFetches (sys_init E n)) = 1"
    and "pendingSends (sys_init E n) = []"
    and "knowledgeGroups (app (sys_init E n)) = INITIAL_KNOWLEDGE_GROUPS"
    and "activeGroupId (app (sys_init E n)) = js ''gemini-overview''"
    and "selectedModel (app (sys_init E n)) = js ''gemini-2.5-flash''"
    and "isFetchingSuggestions (app (sys_init E n))"
    and "\<not> isLoading (app (sys_init E n))"
proof -
  let ?w = "welcomeEffect (env_apiKey E) n app_init"
  have w: "activeGroupId ?w = js ''gemini-overview''" "knowledgeGroups ?w = INITIAL_KNOWLEDGE_GROUPS"
    "selectedModel ?w = js ''gemini-2.5-flash''" "\<not> isLoading ?w"
    by (simp_all add: welcomeEffect_def app_init_def overview_id AVAILABLE_MODELS_def)
  have u: "currentUrls (activeGroupId ?w) (knowledgeGroups ?w) \<noteq> []"
    by (simp add: w overview_urls docs_urls_nonempty)
  note e = effect_starts [OF assms u]
  show "length (pendingFetches (sys_init E n)) = 1" "pendingSends (sys_init E n) = []"
    "knowledgeGroups (app (sys_init E n)) = INITIAL_KNOWLEDGE_GROUPS"
    "activeGroupId (app (sys_init E n)) = js ''gemini-overview''"
    "selectedModel (app (sys_init E n)) = js ''gemini-2.5-flash''"
    "isFetchingSuggestions (app (sys_init E n))"
    "\<not> isLoading (app (sys_init E n))"
    by (simp_all add: sys_init_def e opt_list_def w)
qed

lemma SetModel_starts_fetch:
  assumes "truthy (env_apiKey E)" and "m \<noteq> selectedModel (app s)"
    and "currentUrls (activeGroupId (app s)) (knowledgeGroups (app s)) \<noteq> []"
  shows "length (pendingFetches (sys_step E s (SetModel m, n))) = Suc (length (pendingFetches s))"
proof -
  let ?st = "(app s)\<lparr>selectedModel := m\<rparr>"
  have u: "currentUrls (activeGroupId ?st) (knowledgeGroups ?st) \<noteq> []" using assms(3) by simp
  show ?thesis
    using assms(2) by (simp add: sys_step_def effect_starts [OF assms(1) u] opt_list_def)
qed

lemma pro_not_flash: "js ''gemini-2.5-pro'' \<noteq> js ''gemini-2.5-flash''"
  by (simp add: js_def)


text \<open>
  C6, as the code has it. In every state the application reaches from its first render
  by sends, model and knowledge changes and settling calls: at most one chat send is
  pending and \<open>isLoading\<close> is set exactly while it is; \<open>isFetchingSuggestions\<close> is set only
  while a suggestion fetch is pending; while either flag is set a further
  \<open>handleSendMessage\<close> returns at once, the state unchanged and no call started; the
  settling of the pending send clears \<open>isLoading\<close>, and the settling of a pending fetch
  clears \<open>isFetchingSuggestions\<close>. Nothing limits the pending suggestion fetches.
\<close>

theorem one_send_outstanding:
  assumes "s = sys_run E t0 evs"
  shows "length (pendingSends s) \<le> 1
       \<and> (isLoading (app s) \<longleftrightarrow> pendingSends s \<noteq> [])
       \<and> (isFetchingSuggestions (app s) \<longrightarrow> pendingFetches s \<noteq> [])
       \<and> (isLoading (app s) \<or> isFetchingSuggestions (app s) \<longrightarrow>
            (\<forall>now query images.
               handleSendMessage (env_apiKey E) now query images (app s) = (app s, None)
               \<and> sys_step E s (Send query images, now) = s))
       \<and> (\<forall>i result now. i < length (pendingSends s) \<longrightarrow>
            \<not> isLoading (app (sys_step E s (SendSettles i result, now)))
            \<and> pendingSends (sys_step E s (SendSettles i result, now)) = [])
       \<and> (\<forall>i result now. i < length (pendingFetches s) \<longrightarrow>
            \<not> isFetchingSuggestions (app (sys_step E s (FetchSettles i result, now)))
            \<and> length (pendingFetches (sys_step E s (FetchSettles i result, now)))
                = length (pendingFetches s) - 1)"
proof -
  have inv: "sys_inv s" unfolding assms by (rule inv_run)
  have a: "length (pendingSends s) \<le> 1" "isLoading (app s) \<longleftrightarrow> pendingSends s \<noteq> []"
    "isFetchingSuggestions (app s) \<longrightarrow> pendingFetches s \<noteq> []"
    using inv by (simp_all add: sys_inv_def)
  have b: "handleSendMessage (env_apiKey E) now query images (app s) = (app s, None)
           \<and> sys_step E s (Send query images, now) = s"
    if "isLoading (app s) \<or> isFetchingSuggestions (app s)" for now query images
    using that by (auto simp: handleSendMessage_def sys_step_def opt_list_def)
  have c: "\<not> isLoading (app (sys_step E s (SendSettles i result, now)))
           \<and> pendingSends (sys_step E s (SendSettles i result, now)) = []"
    if "i < length (pendingSends s)" for i result now
    using that remove_nth_single [OF a(1) that]
    by (simp add: sys_step_def handleSendMessage_settled_def)
  have d: "\<not> isFetchingSuggestions (app (sys_step E s (FetchSettles i result, now)))
           \<and> length (pendingFetches (sys_step E s (FetchSettles i result, now)))
                = length (pendingFetches s) - 1"
    if "i < length (pendingFetches s)" for i result now
    using that by (auto simp: sys_step_def fetch_settled_fields(2) remove_nth_def)
  from a b c d show ?thesis by blast
qed

theorem one_send_outstanding_witness:
  "isFetchingSuggestions (app (sys_run demo_env 0 []))
   \<and> sys_step demo_env (sys_run demo_env 0 []) (Send (js ''hello'') [], 1) = sys_run demo_env 0 []
   \<and> length (pendingSends (sys_run demo_env 0 [])) \<le> 1"
proof -
  have f: "isFetchingSuggestions (app (sys_run demo_env 0 []))"
    using init_fields(6) [OF demo_key, of 0] by (simp add: sys_run_def)
  from one_send_outstanding [OF refl, of demo_env 0 "[]"] f show ?thesis by blast
qed

text \<open>
  The specification allows one suggestion fetch at a time and has the flag cleared
  exactly when it settles. Selecting another model while the first fetch is pending
  starts a second one; when the first settles the flag is cleared with the second still
  pending.
\<close>

theorem two_fetches_counterexample:
  "length (pendingFetches (sys_run demo_env 0 pick_pro)) = 2
   \<and> \<not> isFetchingSuggestions (app (sys_run demo_env 0 pick_pro_then_settle))
   \<and> length (pendingFetches (sys_run demo_env 0 pick_pro_then_settle)) = 1"
proof -
  let ?s0 = "sys_init demo_env 0"
  let ?s1 = "sys_step demo_env ?s0 (SetModel (js ''gemini-2.5-pro''), 1)"
  note i = init_fields [OF demo_key, of 0]
  have two: "length (pendingFetches ?s1) = 2"
    using SetModel_starts_fetch [OF demo_key, of "js ''gemini-2.5-pro''" ?s0 1]
    by (simp add: i pro_not_flash overview_urls docs_urls_nonempty)
  have r1: "sys_run demo_env 0 pick_pro = ?s1"
    by (simp add: sys_run_def pick_pro_def)
  have r2: "sys_run demo_env 0 pick_pro_then_settle
            = sys_step demo_env ?s1 (FetchSettles 0 (Rejected []), 2)"
    by (simp add: sys_run_def pick_pro_then_settle_def pick_pro_def)
  have after: "\<not> isFetchingSuggestions (app (sys_step demo_env ?s1 (FetchSettles 0 (Rejected []), 2)))
      \<and> length (pendingFetches (sys_step demo_env ?s1 (FetchSettles 0 (Rejected []), 2))) = 1"
    using two by (simp add: sys_step_def fetch_settled_fields(2) remove_nth_def del: One_nat_def)
  show ?thesis unfolding r1 r2 using two after by simp
qed



section \<open>The loading placeholder\<close>

lemma map_replace_fresh:
  "pid \<notin> msg_id ` set xs \<Longrightarrow> map (\<lambda>m. if msg_id m = pid then t else m) xs = xs"
  by (induction xs) auto

lemma loading_placeholder [simp]: "loading (modelPlaceholderMessage n)"
  by (simp add: loading_def modelPlaceholderMessage_def)

lemma filter_none: "\<not> list_ex P xs \<Longrightarrow> filter P xs = []"
  by (induction xs) auto




text \<open>
  A send that passes the input guard where a credential is configured and no message is
  loading: what the send appends, and what the settled call leaves in a transcript to
  which messages may have been appended meanwhile.
\<close>

lemma placeholder_with_key:
  assumes guard: "\<not> (blank query \<and> images = [])" "\<not> isLoading st" "\<not> isFetchingSuggestions st"
    and key: "truthy apiKey"
    and quiet: "\<not> list_ex loading (chatMessages st)"
    and send: "handleSendMessage apiKey now query images (st :: 'a app_state_scheme)
                 = (st1, request)"
  shows "\<exists>r. request = Some r \<and> sr_placeholder r = modelPlaceholderMessage now
       \<and> chatMessages st1
           = chatMessages st @ [userMessage now query images, modelPlaceholderMessage now]
       \<and> filter loading (chatMessages st1) = [modelPlaceholderMessage now]
       \<and> (\<forall>result (st2 :: 'a app_state_scheme) extra.
             chatMessages st2 = chatMessages st1 @ extra \<and> \<not> list_ex loading extra
             \<longrightarrow> chatMessages (handleSendMessage_settled r result st2)
                   = map (\<lambda>msg. if msg_id msg = msg_id (modelPlaceholderMessage now)
                                then terminal_message (modelPlaceholderMessage now) result
                                else msg) (chatMessages st)
                     @ [userMessage now query images,
                        terminal_message (modelPlaceholderMessage now) result]
                     @ map (\<lambda>msg. if msg_id msg = msg_id (modelPlaceholderMessage now)
                                  then terminal_message (modelPlaceholderMessage now) result
                                  else msg) extra
                 \<and> (msg_id (modelPlaceholderMessage now)
                        \<notin> msg_id ` set (chatMessages st @ extra)
                      \<longrightarrow> chatMessages (handleSendMessage_settled r result st2)
                            = chatMessages st
                              @ [userMessage now query images,
                                 terminal_message (modelPlaceholderMessage now) result]
                              @ extra)
                 \<and> \<not> list_ex loading (chatMessages (handleSendMessage_settled r result st2))
                 \<and> \<not> isLoading (handleSendMessage_settled r result st2))
       \<and> (\<forall>response.
             msg_isLoading (terminal_message (modelPlaceholderMessage now) (Fulfilled response))
               = Some False
             \<and> msg_sender (terminal_message (modelPlaceholderMessage now) (Fulfilled response))
               = MODEL
             \<and> msg_text (terminal_message (modelPlaceholderMessage now) (Fulfilled response))
               = (if resp_text response \<noteq> [] then resp_text response
                  else js ''I received an empty response.''))
       \<and> (\<forall>message.
             msg_isLoading (terminal_message (modelPlaceholderMessage now) (Rejected message))
               = Some False
             \<and> msg_sender (terminal_message (modelPlaceholderMessage now) (Rejected message))
               = SYSTEM
             \<and> msg_text (terminal_message (modelPlaceholderMessage now) (Rejected message))
               = js ''Error: '' @ (if message \<noteq> [] then message
                                  else js ''Failed to get response from AI.''))"
proof -
  let ?p = "modelPlaceholderMessage now"
  let ?u = "userMessage now query images"
  let ?r = "\<lparr>sr_placeholder = ?p, sr_query = query,
             sr_urls = currentUrls (activeGroupId st) (knowledgeGroups st),
             sr_files = currentFiles (activeGroupId st) (knowledgeGroups st),
             sr_model = selectedModel st, sr_images = images\<rparr>"
  have g: "\<not> (trim query = [] \<and> length images = 0)"
    using guard(1) by (simp add: blank_def trim_empty_iff)
  have st1: "st1 = st\<lparr>isLoading := True, initialQuerySuggestions := [],
                       chatMessages := chatMessages st @ [?u, ?p]\<rparr>"
    and rq: "request = Some ?r"
    using send g guard(2,3) key by (auto simp: handleSendMessage_def)
  have chat1: "chatMessages st1 = chatMessages st @ [?u, ?p]" by (simp add: st1)
  have uid: "msg_id ?u \<noteq> msg_id ?p"
    by (simp add: userMessage_def modelPlaceholderMessage_def js_def)
  have one: "filter loading (chatMessages st1) = [?p]"
    by (simp add: chat1 filter_none [OF quiet])
  have settle: "chatMessages (handleSendMessage_settled ?r result st2)
                  = map (\<lambda>msg. if msg_id msg = msg_id ?p then terminal_message ?p result else msg)
                        (chatMessages st)
                    @ [?u, terminal_message ?p result]
                    @ map (\<lambda>msg. if msg_id msg = msg_id ?p then terminal_message ?p result else msg)
                          extra
                \<and> (msg_id ?p \<notin> msg_id ` set (chatMessages st @ extra)
                      \<longrightarrow> chatMessages (handleSendMessage_settled ?r result st2)
                            = chatMessages st @ [?u, terminal_message ?p result] @ extra)
                \<and> \<not> list_ex loading (chatMessages (handleSendMessage_settled ?r result st2))
                \<and> \<not> isLoading (handleSendMessage_settled ?r result st2)"
    if x: "chatMessages st2 = chatMessages st1 @ extra" "\<not> list_ex loading extra"
    for result extra and st2 :: "'a app_state_scheme"
  proof -
    let ?f = "\<lambda>msg. if msg_id msg = msg_id ?p then terminal_message ?p result else msg"
    have c: "chatMessages (handleSendMessage_settled ?r result st2)
             = map ?f (chatMessages st) @ [?u, terminal_message ?p result] @ map ?f extra"
      using uid by (simp add: handleSendMessage_settled_def x(1) chat1)
    have d: "chatMessages (handleSendMessage_settled ?r result st2)
             = chatMessages st @ [?u, terminal_message ?p result] @ extra"
      if "msg_id ?p \<notin> msg_id ` set (chatMessages st @ extra)"
    proof -
      from that have n: "msg_id ?p \<notin> msg_id ` set (chatMessages st)"
        "msg_id ?p \<notin> msg_id ` set extra"
        by auto
      have a: "map ?f (chatMessages st) = chatMessages st" using n(1) by (rule map_replace_fresh)
      have b: "map ?f extra = extra" using n(2) by (rule map_replace_fresh)
      show ?thesis by (simp only: c a b)
    qed
    have "\<not> list_ex loading (map ?f xs)" if "\<not> list_ex loading xs" for xs
      using that by (induction xs) auto
    from this [OF quiet] this [OF x(2)]
    have "\<not> list_ex loading (map ?f (chatMessages st) @ [?u, terminal_message ?p result] @ map ?f extra)"
      by (auto simp: list_ex_iff)
    with c d show ?thesis by (simp add: handleSendMessage_settled_def)
  qed
  have t1: "msg_isLoading (terminal_message ?p (Fulfilled response)) = Some False
          \<and> msg_sender (terminal_message ?p (Fulfilled response)) = MODEL
          \<and> msg_text (terminal_message ?p (Fulfilled response))
              = (if resp_text response \<noteq> [] then resp_text response
                 else js ''I received an empty response.'')" for response
    by (simp add: terminal_message_def modelPlaceholderMessage_def)
  have t2: "msg_isLoading (terminal_message ?p (Rejected message)) = Some False
          \<and> msg_sender (terminal_message ?p (Rejected message)) = SYSTEM
          \<and> msg_text (terminal_message ?p (Rejected message))
              = js ''Error: '' @ (if message \<noteq> [] then message
                                 else js ''Failed to get response from AI.'')" for message
    by (simp add: terminal_message_def modelPlaceholderMessage_def)
  show ?thesis
    apply (rule exI [of _ ?r])
    apply (intro conjI allI impI)
    subgoal by (rule rq)
    subgoal by simp
    subgoal by (rule chat1)
    subgoal by (rule one)
    subgoal for result st2 extra using settle [of st2 extra result] by blast
    subgoal for result st2 extra using settle [of st2 extra result] by blast
    subgoal for result st2 extra using settle [of st2 extra result] by blast
    subgoal for result st2 extra using settle [of st2 extra result] by blast
    subgoal using t1 by blast
    subgoal using t1 by blast
    subgoal using t1 by blast
    subgoal using t2 by blast
    subgoal using t2 by blast
    subgoal using t2 by blast
    done
qed


text \<open>Without a credential a send that passes the input guard appends no placeholder.\<close>

lemma send_without_key:
  "\<not> (blank (js ''hello'') \<and> ([] :: AttachedImage list) = [])
   \<and> \<not> isLoading idle_state \<and> \<not> isFetchingSuggestions idle_state
   \<and> handleSendMessage None 2000 (js ''hello'') [] idle_state
       = (idle_state\<lparr>chatMessages := chatMessages idle_state @
            [system_message (js ''error-apikey-'') 2000
               (js ''ERROR: API Key (process.env.API_KEY) is not configured. Please set it up to send messages.'')]\<rparr>,
          None)
   \<and> filter loading (chatMessages (fst (handleSendMessage None 2000 (js ''hello'') [] idle_state))) = []"
proof -
  have t: "trim (js ''hello'') \<noteq> []"
    using hello_not_blank by (simp add: trim_empty_iff blank_def)
  have h: "handleSendMessage None 2000 (js ''hello'') [] idle_state
       = (idle_state\<lparr>chatMessages := chatMessages idle_state @
            [system_message (js ''error-apikey-'') 2000
               (js ''ERROR: API Key (process.env.API_KEY) is not configured. Please set it up to send messages.'')]\<rparr>,
          None)"
    by (simp add: handleSendMessage_def t idle_state_fields truthy_def)
  show ?thesis
    by (simp add: h hello_not_blank idle_state_fields)
qed

text \<open>
  A change of the knowledge groups while the answer is awaited resets the transcript to
  the welcome; the answer then finds no placeholder and nothing takes its place.
\<close>

lemma Send_passes:
  assumes "\<not> isLoading (app s)" "\<not> isFetchingSuggestions (app s)" "trim q \<noteq> []"
    "truthy (env_apiKey E)"
  shows "pendingSends (sys_step E s (Send q i, n))
           = pendingSends s @
             [\<lparr>sr_placeholder = modelPlaceholderMessage n, sr_query = q,
               sr_urls = currentUrls (activeGroupId (app s)) (knowledgeGroups (app s)),
               sr_files = currentFiles (activeGroupId (app s)) (knowledgeGroups (app s)),
               sr_model = selectedModel (app s), sr_images = i\<rparr>]"
    and "chatMessages (app (sys_step E s (Send q i, n)))
           = chatMessages (app s) @ [userMessage n q i, modelPlaceholderMessage n]"
    and "knowledgeGroups (app (sys_step E s (Send q i, n))) = knowledgeGroups (app s)"
    and "activeGroupId (app (sys_step E s (Send q i, n))) = activeGroupId (app s)"
  using assms by (simp_all add: sys_step_def handleSendMessage_def opt_list_def)

lemma FetchSettles_fields:
  assumes "i < length (pendingFetches s)"
  shows "\<not> isFetchingSuggestions (app (sys_step E s (FetchSettles i r, n)))"
    and "isLoading (app (sys_step E s (FetchSettles i r, n))) = isLoading (app s)"
    and "pendingSends (sys_step E s (FetchSettles i r, n)) = pendingSends s"
    and "knowledgeGroups (app (sys_step E s (FetchSettles i r, n))) = knowledgeGroups (app s)"
    and "activeGroupId (app (sys_step E s (FetchSettles i r, n))) = activeGroupId (app s)"
  using assms
  by (auto simp: sys_step_def fetchAndSetInitialSuggestions_settled_def
           split: settled.splits prod.splits)

lemma RemoveUrl_resets:
  "chatMessages (app (sys_step E s (Knowledge (RemoveUrl u), n)))
     = chatMessages (welcomeEffect (env_apiKey E) n
                       (kb_step (env_libs E) (app s) (RemoveUrl u)))"
  "pendingSends (sys_step E s (Knowledge (RemoveUrl u), n)) = pendingSends s"
  by (simp_all add: sys_step_def sets_state_def rebuilds_sources_def Let_def effect_fields(2)
        split: prod.splits)
     (metis effect_fields(2) fst_conv)

lemma SendSettles_fields:
  assumes "i < length (pendingSends s)"
  shows "chatMessages (app (sys_step E s (SendSettles i r, n)))
           = map (\<lambda>msg. if msg_id msg = msg_id (sr_placeholder (pendingSends s ! i))
                        then terminal_message (sr_placeholder (pendingSends s ! i)) r
                        else msg)
                 (chatMessages (app s))"
    and "pendingSends (sys_step E s (SendSettles i r, n)) = remove_nth i (pendingSends s)"
  using assms by (simp_all add: sys_step_def handleSendMessage_settled_def)

lemma welcome_chat:
  "chatMessages (welcomeEffect k n st)
   = [system_message (js ''system-welcome-'' @ activeGroupId st @ js ''-'') n
        (msg_text (hd (chatMessages (welcomeEffect k n st))))]"
  by (simp add: welcomeEffect_def system_message_def)

lemma welcome_not_placeholder:
  "msg_id (system_message (js ''system-welcome-'' @ g @ js ''-'') n t) \<noteq> msg_id (modelPlaceholderMessage m)"
  by (simp add: system_message_def modelPlaceholderMessage_def js_def)

lemma chat_reset_scenario:
  "filter loading (chatMessages (app (sys_run demo_env 0 send_hello))) = [modelPlaceholderMessage 20]
   \<and> pendingSends (sys_run demo_env 0 send_hello) \<noteq> []
   \<and> pendingSends (sys_run demo_env 0 reset_during_send) = []
   \<and> length (chatMessages (app (sys_run demo_env 0 reset_during_send))) = 1
   \<and> msg_sender (hd (chatMessages (app (sys_run demo_env 0 reset_during_send)))) = SYSTEM
   \<and> msg_id (hd (chatMessages (app (sys_run demo_env 0 reset_during_send))))
       \<noteq> msg_id (modelPlaceholderMessage 20)"
proof -
  let ?s0 = "sys_init demo_env 0"
  let ?s1 = "sys_step demo_env ?s0 (FetchSettles 0 (Rejected []), 10)"
  let ?s2 = "sys_step demo_env ?s1 (Send (js ''hello'') [], 20)"
  let ?s3 = "sys_step demo_env ?s2 (Knowledge (RemoveUrl (js ''x'')), 30)"
  let ?s4 = "sys_step demo_env ?s3 (SendSettles 0 (Fulfilled answer), 40)"
  note i = init_fields [OF demo_key, of 0]
  have l0: "0 < length (pendingFetches ?s0)" using i(1) by simp
  note f1 = FetchSettles_fields [OF l0, of demo_env "Rejected []" 10]
  have idle1: "\<not> isLoading (app ?s1)" "\<not> isFetchingSuggestions (app ?s1)"
    "pendingSends ?s1 = []"
    using f1 i by simp_all
  have t: "trim (js ''hello'') \<noteq> []"
    using hello_not_blank by (simp add: trim_empty_iff blank_def)
  note s2 = Send_passes [OF idle1(1,2) t demo_key, of "[]" 20]
  have inv1: "sys_inv ?s1" by (intro inv_step inv_init)
  have quiet1: "\<not> list_ex loading (chatMessages (app ?s1))"
    using inv1 idle1(3) by (auto simp: sys_inv_def list_ex_iff)
  have one: "filter loading (chatMessages (app ?s2)) = [modelPlaceholderMessage 20]"
    by (simp add: s2(2) filter_none [OF quiet1])
  have p2: "pendingSends ?s2 \<noteq> []" by (simp add: s2(1))
  have p3: "pendingSends ?s3 = pendingSends ?s2" by (rule RemoveUrl_resets(2))
  obtain w wtext where chat3: "chatMessages (app ?s3)
      = [system_message (js ''system-welcome-'' @ w @ js ''-'') 30 wtext]"
    using welcome_chat [of "env_apiKey demo_env" 30 "kb_step (env_libs demo_env) (app ?s2) (RemoveUrl (js ''x''))"]
      RemoveUrl_resets(1) [of demo_env ?s2 "js ''x''" 30]
    by metis
  have l3: "0 < length (pendingSends ?s3)" using p3 p2 by simp
  have ph: "sr_placeholder (pendingSends ?s3 ! 0) = modelPlaceholderMessage 20"
    by (simp add: p3 s2(1) idle1(3))
  have chat4: "chatMessages (app ?s4) = chatMessages (app ?s3)"
  proof -
    have "chatMessages (app ?s4)
          = map (\<lambda>msg. if msg_id msg = msg_id (modelPlaceholderMessage 20)
                       then terminal_message (modelPlaceholderMessage 20) (Fulfilled answer)
                       else msg)
                (chatMessages (app ?s3))"
      using SendSettles_fields(1) [OF l3, of demo_env "Fulfilled answer" 40] by (simp only: ph)
    also have "\<dots> = chatMessages (app ?s3)"
      by (rule map_replace_fresh) (simp add: chat3 welcome_not_placeholder [symmetric])
    finally show ?thesis .
  qed
  have inv3: "sys_inv ?s3" by (intro inv_step inv_init)
  have p4: "pendingSends ?s4 = []"
  proof -
    have "length (pendingSends ?s3) \<le> 1" using inv3 by (simp only: sys_inv_def)
    from remove_nth_single [OF this l3] SendSettles_fields(2) [OF l3, of demo_env "Fulfilled answer" 40]
    show ?thesis by (simp only:)
  qed
  have r1: "sys_run demo_env 0 send_hello = ?s2"
    by (simp add: sys_run_def send_hello_def)
  have r2: "sys_run demo_env 0 reset_during_send = ?s4"
    by (simp add: sys_run_def reset_during_send_def send_hello_def)
  have fin: "length (chatMessages (app ?s4)) = 1"
    "msg_sender (hd (chatMessages (app ?s4))) = SYSTEM"
    "msg_id (hd (chatMessages (app ?s4))) \<noteq> msg_id (modelPlaceholderMessage 20)"
    unfolding chat4 chat3
    by (simp_all add: system_message_def modelPlaceholderMessage_def js_def)
  show ?thesis unfolding r1 r2 using one p2 p4 fin by simp
qed


text \<open>
  Every knowledge operation that takes effect leaves the transcript that the welcome
  effect makes, and touches neither the pending sends nor \<open>isLoading\<close>.
\<close>

lemma Knowledge_resets:
  assumes "takes_effect op (app s)"
  shows "chatMessages (app (sys_step E s (Knowledge op, n)))
           = chatMessages (welcomeEffect (env_apiKey E) n (kb_step (env_libs E) (app s) op))"
    and "pendingSends (sys_step E s (Knowledge op, n)) = pendingSends s"
    and "isLoading (app (sys_step E s (Knowledge op, n))) = isLoading (app s)"
proof -
  let ?st1 = "welcomeEffect (env_apiKey E) n (kb_step (env_libs E) (app s) op)"
  obtain st' rq where e: "suggestionsEffect (env_apiKey E) ?st1 = (st', rq)" by fastforce
  have f: "isLoading st' = isLoading ?st1" "chatMessages st' = chatMessages ?st1"
    using effect_fields(1,2) [of "env_apiKey E" ?st1] e by simp_all
  have a: "sets_state op (app s)"
    and b: "\<not> (case op of
                  SetGroupId gid \<Rightarrow> gid \<notin> set (map group_id (knowledgeGroups (app s)))
                | _ \<Rightarrow> False)"
    using assms by (auto simp: takes_effect_def split: kb_op.splits)
  have step: "sys_step E s (Knowledge op, n)
        = (if rebuilds_sources op (app s)
           then s\<lparr>app := st', pendingFetches := pendingFetches s @ opt_list rq\<rparr>
           else s\<lparr>app := ?st1\<rparr>)"
    using a b by (simp add: sys_step_def Let_def e)
  show "chatMessages (app (sys_step E s (Knowledge op, n))) = chatMessages ?st1"
    by (simp add: step f)
  show "pendingSends (sys_step E s (Knowledge op, n)) = pendingSends s"
    by (simp add: step)
  show "isLoading (app (sys_step E s (Knowledge op, n))) = isLoading (app s)"
    by (simp add: step f welcome_fields(1) kb_step_fields(1))
qed

lemma welcome_from_system:
  "list_all from_system (chatMessages (welcomeEffect k n st))"
  by (simp add: welcomeEffect_def from_system_def loading_def system_message_def js_def)

lemma placeholder_not_from_system:
  "from_system msg \<Longrightarrow> msg_id msg \<noteq> msg_id (modelPlaceholderMessage m)"
  by (auto simp: from_system_def modelPlaceholderMessage_def js_def)


text \<open>
  While a send is outstanding, with a transcript that holds only messages made by the
  system, every event but the settling of that send keeps it so.
\<close>

lemma awaiting_Send: "awaiting r s \<Longrightarrow> awaiting r (sys_step E s (Send q i, n))"
  by (simp add: awaiting_def sys_step_def handleSendMessage_def opt_list_def)

lemma awaiting_SetModel: "awaiting r s \<Longrightarrow> awaiting r (sys_step E s (SetModel m, n))"
proof -
  assume a: "awaiting r s"
  let ?st = "(app s)\<lparr>selectedModel := m\<rparr>"
  obtain st' rq where e: "suggestionsEffect (env_apiKey E) ?st = (st', rq)" by fastforce
  have f: "isLoading st' = isLoading (app s)" "chatMessages st' = chatMessages (app s)"
    using effect_fields(1,2) [of "env_apiKey E" ?st] e by simp_all
  show ?thesis using a f by (simp add: awaiting_def sys_step_def e)
qed

lemma fetch_settled_from_system:
  "\<exists>extra. chatMessages (fetchAndSetInitialSuggestions_settled P n r st) = chatMessages st @ extra
           \<and> list_all from_system extra"
  by (auto simp: fetchAndSetInitialSuggestions_settled_def from_system_def loading_def
        system_message_def js_def
        split: settled.splits prod.splits option.splits suggestion_problem.splits)

lemma awaiting_FetchSettles:
  "awaiting r s \<Longrightarrow> awaiting r (sys_step E s (FetchSettles i res, n))"
proof -
  assume a: "awaiting r s"
  obtain extra where x: "chatMessages (fetchAndSetInitialSuggestions_settled (env_parse E) n res (app s))
        = chatMessages (app s) @ extra" "list_all from_system extra"
    using fetch_settled_from_system by blast
  show ?thesis using a x
    by (simp add: awaiting_def sys_step_def fetch_settled_fields(1))
qed

lemma awaiting_Knowledge:
  "awaiting r s \<Longrightarrow> awaiting r (sys_step E s (Knowledge op, n))"
proof (cases "takes_effect op (app s)")
  case True
  assume a: "awaiting r s"
  show ?thesis using a Knowledge_resets [OF True, of E n] welcome_from_system
    by (simp add: awaiting_def)
next
  case False
  assume a: "awaiting r s"
  from False have "sys_step E s (Knowledge op, n) = s
                 \<or> sys_step E s (Knowledge op, n) = s\<lparr>app := kb_step (env_libs E) (app s) op\<rparr>"
    by (auto simp: sys_step_def takes_effect_def split: kb_op.splits)
  then show ?thesis using a by (auto simp: awaiting_def kb_step_fields)
qed

lemma awaiting_step:
  assumes "awaiting r s" and "\<not> settles_send (fst ev)"
  shows "awaiting r (sys_step E s ev)"
proof -
  obtain e n where ev: "ev = (e, n)" by (cases ev)
  show ?thesis using assms(2) unfolding ev
    by (cases e)
       (simp_all add: settles_send_def awaiting_Send [OF assms(1)] awaiting_SetModel [OF assms(1)]
          awaiting_FetchSettles [OF assms(1)] awaiting_Knowledge [OF assms(1)])
qed

lemma awaiting_foldl:
  "awaiting r s \<Longrightarrow> \<not> list_ex (\<lambda>ev. settles_send (fst ev)) evs \<Longrightarrow>
   awaiting r (foldl (sys_step E) s evs)"
  by (induction evs arbitrary: s) (simp_all add: awaiting_step)

lemma awaiting_after_reset:
  assumes "pendingSends s = [r]" "isLoading (app s)" "takes_effect op (app s)"
  shows "awaiting r (sys_step E s (Knowledge op, n))"
  using assms Knowledge_resets [OF assms(3), of E n] welcome_from_system
  by (simp add: awaiting_def)

lemma awaiting_settles:
  assumes "awaiting r s" and "sr_placeholder r = modelPlaceholderMessage m"
  shows "chatMessages (app (sys_step E s (SendSettles 0 result, n))) = chatMessages (app s)"
    and "\<not> isLoading (app (sys_step E s (SendSettles 0 result, n)))"
    and "pendingSends (sys_step E s (SendSettles 0 result, n)) = []"
    and "\<not> list_ex loading (chatMessages (app s))"
    and "msg_id (modelPlaceholderMessage m) \<notin> msg_id ` set (chatMessages (app s))"
proof -
  have p: "pendingSends s = [r]" and fs: "list_all from_system (chatMessages (app s))"
    using assms(1) by (simp_all add: awaiting_def)
  show fresh: "msg_id (modelPlaceholderMessage m) \<notin> msg_id ` set (chatMessages (app s))"
  proof
    assume "msg_id (modelPlaceholderMessage m) \<in> msg_id ` set (chatMessages (app s))"
    then obtain x where x: "x \<in> set (chatMessages (app s))"
      and i: "msg_id x = msg_id (modelPlaceholderMessage m)" by auto
    from fs x have "from_system x" by (simp add: list_all_iff)
    from placeholder_not_from_system [OF this, of m] i show False by simp
  qed
  have "chatMessages (app (sys_step E s (SendSettles 0 result, n)))
        = map (\<lambda>msg. if msg_id msg = msg_id (modelPlaceholderMessage m)
                     then terminal_message (modelPlaceholderMessage m) result else msg)
              (chatMessages (app s))"
    by (simp add: sys_step_def p handleSendMessage_settled_def assms(2))
  also have "\<dots> = chatMessages (app s)" using fresh by (rule map_replace_fresh)
  finally show "chatMessages (app (sys_step E s (SendSettles 0 result, n))) = chatMessages (app s)" .
  show "\<not> isLoading (app (sys_step E s (SendSettles 0 result, n)))"
    by (simp add: sys_step_def p handleSendMessage_settled_def)
  show "pendingSends (sys_step E s (SendSettles 0 result, n)) = []"
    by (simp add: sys_step_def p remove_nth_def)
  show "\<not> list_ex loading (chatMessages (app s))"
    using fs by (auto simp: list_all_iff list_ex_iff from_system_def)
qed


text \<open>
  C2, as the code has it. Take a send that passes the input guard (some text or an
  image, no send and no suggestion fetch in flight).

  With a credential the send starts one call, sets \<open>isLoading\<close> and appends the user
  message and one placeholder. If no message was loading before (which holds in every
  reachable state without a pending send, \<open>idle_quiet\<close>), the placeholder is the only
  loading message; and when the call settles in a transcript to which messages may have
  been appended meanwhile, every message with the id of the placeholder, the placeholder
  among them, is replaced by the terminal message and the others stay, so that, when no
  other message has that id, the transcript is the old one with the user message, the
  terminal message in the place of the placeholder, and what was appended. No message is
  loading afterwards and \<open>isLoading\<close> is clear.

  While that call is outstanding (it is the one pending send and \<open>isLoading\<close> is set),
  every knowledge operation that takes effect makes the transcript what the welcome
  effect leaves, one message. From then on, whatever events follow before the call
  settles, the call stays pending, no message is loading and none has the id of the
  placeholder; when the call settles, the transcript stays as it is, \<open>isLoading\<close> is
  cleared and no send is pending.

  Without a credential the send starts no call and appends one system message, the
  error about the key, and nothing else changes; no message becomes loading.

  The terminal message has \<open>isLoading\<close> false; on success it comes from the model with
  the response text (a fixed text when the response text is empty), on failure from the
  system with the error text.
\<close>

theorem placeholder_replaced_once:
  assumes guard: "\<not> (blank query \<and> images = [])" "\<not> isLoading st" "\<not> isFetchingSuggestions st"
    and send: "handleSendMessage apiKey now query images (st :: 'a app_state_scheme)
                 = (st1, request)"
  shows "(truthy apiKey \<longrightarrow>
           (\<exists>r. request = Some r \<and> sr_placeholder r = modelPlaceholderMessage now
              \<and> isLoading st1
              \<and> chatMessages st1
                  = chatMessages st @ [userMessage now query images, modelPlaceholderMessage now]
              \<and> (\<not> list_ex loading (chatMessages st) \<longrightarrow>
                    filter loading (chatMessages st1) = [modelPlaceholderMessage now]
                    \<and> (\<forall>result (st2 :: 'a app_state_scheme) extra.
                          chatMessages st2 = chatMessages st1 @ extra \<and> \<not> list_ex loading extra
                          \<longrightarrow> chatMessages (handleSendMessage_settled r result st2)
                                = map (\<lambda>msg. if msg_id msg = msg_id (modelPlaceholderMessage now)
                                             then terminal_message (modelPlaceholderMessage now) result
                                             else msg) (chatMessages st)
                                  @ [userMessage now query images,
                                     terminal_message (modelPlaceholderMessage now) result]
                                  @ map (\<lambda>msg. if msg_id msg = msg_id (modelPlaceholderMessage now)
                                               then terminal_message (modelPlaceholderMessage now) result
                                               else msg) extra
                              \<and> (msg_id (modelPlaceholderMessage now)
                                     \<notin> msg_id ` set (chatMessages st @ extra)
                                   \<longrightarrow> chatMessages (handleSendMessage_settled r result st2)
                                         = chatMessages st
                                           @ [userMessage now query images,
                                              terminal_message (modelPlaceholderMessage now) result]
                                           @ extra)
                              \<and> \<not> list_ex loading (chatMessages (handleSendMessage_settled r result st2))
                              \<and> \<not> isLoading (handleSendMessage_settled r result st2)))))
       \<and> (\<forall>r E s op n evs result n'.
             request = Some r \<and> pendingSends s = [r] \<and> isLoading (app s)
             \<and> takes_effect op (app s) \<and> \<not> list_ex (\<lambda>ev. settles_send (fst ev)) evs
             \<longrightarrow> chatMessages (app (sys_step E s (Knowledge op, n)))
                   = chatMessages (welcomeEffect (env_apiKey E) n
                                     (kb_step (env_libs E) (app s) op))
               \<and> length (chatMessages (app (sys_step E s (Knowledge op, n)))) = 1
               \<and> pendingSends (foldl (sys_step E) (sys_step E s (Knowledge op, n)) evs) = [r]
               \<and> \<not> list_ex loading
                     (chatMessages (app (foldl (sys_step E) (sys_step E s (Knowledge op, n)) evs)))
               \<and> msg_id (modelPlaceholderMessage now)
                   \<notin> msg_id ` set (chatMessages
                         (app (foldl (sys_step E) (sys_step E s (Knowledge op, n)) evs)))
               \<and> chatMessages
                     (app (sys_step E (foldl (sys_step E) (sys_step E s (Knowledge op, n)) evs)
                             (SendSettles 0 result, n')))
                   = chatMessages (app (foldl (sys_step E) (sys_step E s (Knowledge op, n)) evs))
               \<and> \<not> isLoading
                     (app (sys_step E (foldl (sys_step E) (sys_step E s (Knowledge op, n)) evs)
                             (SendSettles 0 result, n')))
               \<and> pendingSends
                     (sys_step E (foldl (sys_step E) (sys_step E s (Knowledge op, n)) evs)
                        (SendSettles 0 result, n')) = [])
       \<and> (\<not> truthy apiKey \<longrightarrow>
            request = None
            \<and> st1 = st\<lparr>chatMessages := chatMessages st @
                        [system_message (js ''error-apikey-'') now
                           (js ''ERROR: API Key (process.env.API_KEY) is not configured. Please set it up to send messages.'')]\<rparr>
            \<and> filter loading (chatMessages st1) = filter loading (chatMessages st))
       \<and> (\<forall>response.
             msg_isLoading (terminal_message (modelPlaceholderMessage now) (Fulfilled response))
               = Some False
             \<and> msg_sender (terminal_message (modelPlaceholderMessage now) (Fulfilled response))
               = MODEL
             \<and> msg_text (terminal_message (modelPlaceholderMessage now) (Fulfilled response))
               = (if resp_text response \<noteq> [] then resp_text response
                  else js ''I received an empty response.''))
       \<and> (\<forall>message.
             msg_isLoading (terminal_message (modelPlaceholderMessage now) (Rejected message))
               = Some False
             \<and> msg_sender (terminal_message (modelPlaceholderMessage now) (Rejected message))
               = SYSTEM
             \<and> msg_text (terminal_message (modelPlaceholderMessage now) (Rejected message))
               = js ''Error: '' @ (if message \<noteq> [] then message
                                  else js ''Failed to get response from AI.''))"
  (is "(_ \<longrightarrow> ?K) \<and> ?R \<and> (_ \<longrightarrow> ?N) \<and> ?T1 \<and> ?T2")
proof -
  let ?p = "modelPlaceholderMessage now"
  let ?u = "userMessage now query images"
  let ?r = "\<lparr>sr_placeholder = ?p, sr_query = query,
             sr_urls = currentUrls (activeGroupId st) (knowledgeGroups st),
             sr_files = currentFiles (activeGroupId st) (knowledgeGroups st),
             sr_model = selectedModel st, sr_images = images\<rparr>"
  have g: "\<not> (trim query = [] \<and> length images = 0)"
    using guard(1) by (simp add: blank_def trim_empty_iff)
  have t1: ?T1 by (simp add: terminal_message_def modelPlaceholderMessage_def)
  have t2: ?T2 by (simp add: terminal_message_def modelPlaceholderMessage_def)
  have n: ?N if "\<not> truthy apiKey"
    using send g guard(2,3) that by (auto simp: handleSendMessage_def)
  have started: "request = Some ?r
      \<and> st1 = st\<lparr>isLoading := True, initialQuerySuggestions := [],
                  chatMessages := chatMessages st @ [?u, ?p]\<rparr>"
    if key: "truthy apiKey"
    using send g guard(2,3) key by (auto simp: handleSendMessage_def)
  have k: ?K if key: "truthy apiKey"
  proof -
    note st1 = started [OF key, THEN conjunct2] and rq = started [OF key, THEN conjunct1]
    have old: "filter loading (chatMessages st1) = [?p]
        \<and> (\<forall>result (st2 :: 'a app_state_scheme) extra.
              chatMessages st2 = chatMessages st1 @ extra \<and> \<not> list_ex loading extra
              \<longrightarrow> chatMessages (handleSendMessage_settled ?r result st2)
                    = map (\<lambda>msg. if msg_id msg = msg_id ?p then terminal_message ?p result else msg)
                          (chatMessages st)
                      @ [?u, terminal_message ?p result]
                      @ map (\<lambda>msg. if msg_id msg = msg_id ?p then terminal_message ?p result else msg)
                            extra
                  \<and> (msg_id ?p \<notin> msg_id ` set (chatMessages st @ extra)
                       \<longrightarrow> chatMessages (handleSendMessage_settled ?r result st2)
                             = chatMessages st @ [?u, terminal_message ?p result] @ extra)
                  \<and> \<not> list_ex loading (chatMessages (handleSendMessage_settled ?r result st2))
                  \<and> \<not> isLoading (handleSendMessage_settled ?r result st2))"
      if quiet: "\<not> list_ex loading (chatMessages st)"
    proof -
      from placeholder_with_key [OF guard key quiet send]
      obtain r' where r': "request = Some r'"
        and rest: "filter loading (chatMessages st1) = [?p]
           \<and> (\<forall>result (st2 :: 'a app_state_scheme) extra.
              chatMessages st2 = chatMessages st1 @ extra \<and> \<not> list_ex loading extra
              \<longrightarrow> chatMessages (handleSendMessage_settled r' result st2)
                    = map (\<lambda>msg. if msg_id msg = msg_id ?p then terminal_message ?p result else msg)
                          (chatMessages st)
                      @ [?u, terminal_message ?p result]
                      @ map (\<lambda>msg. if msg_id msg = msg_id ?p then terminal_message ?p result else msg)
                            extra
                  \<and> (msg_id ?p \<notin> msg_id ` set (chatMessages st @ extra)
                       \<longrightarrow> chatMessages (handleSendMessage_settled r' result st2)
                             = chatMessages st @ [?u, terminal_message ?p result] @ extra)
                  \<and> \<not> list_ex loading (chatMessages (handleSendMessage_settled r' result st2))
                  \<and> \<not> isLoading (handleSendMessage_settled r' result st2))"
        by blast
      from r' rq have e: "r' = ?r" by simp
      from rest show ?thesis unfolding e .
    qed
    show ?thesis
      apply (rule exI [of _ ?r])
      apply (intro conjI)
      subgoal by (rule rq)
      subgoal by simp
      subgoal by (simp add: st1)
      subgoal by (simp add: st1)
      subgoal using old by blast
      done
  qed
  have reset:
    "chatMessages (app (sys_step E s (Knowledge op, n)))
       = chatMessages (welcomeEffect (env_apiKey E) n (kb_step (env_libs E) (app s) op))
     \<and> length (chatMessages (app (sys_step E s (Knowledge op, n)))) = 1
     \<and> pendingSends (foldl (sys_step E) (sys_step E s (Knowledge op, n)) evs) = [r]
     \<and> \<not> list_ex loading
           (chatMessages (app (foldl (sys_step E) (sys_step E s (Knowledge op, n)) evs)))
     \<and> msg_id ?p \<notin> msg_id ` set (chatMessages
                              (app (foldl (sys_step E) (sys_step E s (Knowledge op, n)) evs)))
     \<and> chatMessages
           (app (sys_step E (foldl (sys_step E) (sys_step E s (Knowledge op, n)) evs)
                   (SendSettles 0 result, n')))
         = chatMessages (app (foldl (sys_step E) (sys_step E s (Knowledge op, n)) evs))
     \<and> \<not> isLoading
           (app (sys_step E (foldl (sys_step E) (sys_step E s (Knowledge op, n)) evs)
                   (SendSettles 0 result, n')))
     \<and> pendingSends
           (sys_step E (foldl (sys_step E) (sys_step E s (Knowledge op, n)) evs)
              (SendSettles 0 result, n')) = []"
    if h: "request = Some r \<and> pendingSends s = [r] \<and> isLoading (app s)
           \<and> takes_effect op (app s) \<and> \<not> list_ex (\<lambda>ev. settles_send (fst ev)) evs"
    for r E s op n evs result n'
  proof -
    let ?s1 = "sys_step E s (Knowledge op, n)"
    let ?s2 = "foldl (sys_step E) ?s1 evs"
    from h have h0: "request = Some r" and h1: "pendingSends s = [r]" and h2: "isLoading (app s)"
      and h3: "takes_effect op (app s)"
      and h4: "\<not> list_ex (\<lambda>ev. settles_send (fst ev)) evs" by simp_all
    have key: "truthy apiKey"
    proof (rule ccontr)
      assume "\<not> truthy apiKey"
      from n [OF this] h0 show False by simp
    qed
    have ph: "sr_placeholder r = modelPlaceholderMessage now"
      using started [OF key] h0 by simp
    have a1: "awaiting r ?s1" by (rule awaiting_after_reset [OF h1 h2 h3])
    have a2: "awaiting r ?s2" by (rule awaiting_foldl [OF a1 h4])
    note z = awaiting_settles(1,2,3) [OF a2 ph, of E result n'] awaiting_settles(4,5) [OF a2 ph]
    have p2: "pendingSends ?s2 = [r]" using a2 by (simp add: awaiting_def)
    have w: "chatMessages (app ?s1)
       = chatMessages (welcomeEffect (env_apiKey E) n (kb_step (env_libs E) (app s) op))"
      by (rule Knowledge_resets(1) [OF h3])
    have l: "length (chatMessages (app ?s1)) = 1"
      unfolding w by (simp add: welcomeEffect_def)
    show ?thesis
      apply (intro conjI)
      subgoal by (rule w)
      subgoal by (rule l)
      subgoal by (rule p2)
      subgoal by (rule z(4))
      subgoal by (rule z(5))
      subgoal by (rule z(1))
      subgoal by (rule z(2))
      subgoal by (rule z(3))
      done
  qed
  have r: ?R
    apply (intro allI impI)
    subgoal for r E s op n evs result n' by (rule reset)
    done
  show ?thesis
    apply (intro conjI)
    subgoal using k by (rule impI)
    subgoal by (rule r)
    subgoal using n by (rule impI)
    subgoal by (rule t1)
    subgoal by (rule t2)
    done
qed


theorem placeholder_replaced_once_witness:
  "chatMessages (handleSendMessage_settled
       (the (snd (handleSendMessage (Some (js ''key'')) 2000 (js ''hello'') [] idle_state)))
       (Rejected (js ''quota''))
       (fst (handleSendMessage (Some (js ''key'')) 2000 (js ''hello'') [] idle_state)))
   = chatMessages idle_state
     @ [userMessage 2000 (js ''hello'') [],
        terminal_message (modelPlaceholderMessage 2000) (Rejected (js ''quota''))]
   \<and> handleSendMessage None 2000 (js ''hello'') [] idle_state
       = (idle_state\<lparr>chatMessages := chatMessages idle_state @
            [system_message (js ''error-apikey-'') 2000
               (js ''ERROR: API Key (process.env.API_KEY) is not configured. Please set it up to send messages.'')]\<rparr>,
          None)
   \<and> chatMessages (app (sys_run demo_env 0 reset_during_send))
       = chatMessages (app (sys_run demo_env 0 (take 3 reset_during_send)))
   \<and> length (chatMessages (app (sys_run demo_env 0 (take 3 reset_during_send)))) = 1
   \<and> \<not> isLoading (app (sys_run demo_env 0 reset_during_send))
   \<and> pendingSends (sys_run demo_env 0 reset_during_send) = []"
proof -
  have g: "\<not> (blank (js ''hello'') \<and> ([] :: AttachedImage list) = [])"
    by (simp add: hello_not_blank)
  have w1: "chatMessages (handleSendMessage_settled
       (the (snd (handleSendMessage (Some (js ''key'')) 2000 (js ''hello'') [] idle_state)))
       (Rejected (js ''quota''))
       (fst (handleSendMessage (Some (js ''key'')) 2000 (js ''hello'') [] idle_state)))
     = chatMessages idle_state
       @ [userMessage 2000 (js ''hello'') [],
          terminal_message (modelPlaceholderMessage 2000) (Rejected (js ''quota''))]"
  proof -
    obtain st1 request where
      send: "handleSendMessage (Some (js ''key'')) 2000 (js ''hello'') [] idle_state = (st1, request)"
      by fastforce
    have k: "truthy (Some (js ''key''))" by (simp add: truthy_def js_def)
    have f: "msg_id (modelPlaceholderMessage 2000) \<notin> msg_id ` set (chatMessages idle_state @ [])"
      by (simp add: idle_state_fields modelPlaceholderMessage_def system_message_def js_def)
    have q: "\<not> list_ex loading (chatMessages idle_state)"
      by (simp add: idle_state_fields)
    note th = placeholder_replaced_once [OF g idle_state_fields(1,2) send]
    from th [THEN conjunct1, THEN mp, OF k] q
    obtain r where r: "request = Some r"
      and settle: "\<forall>result (st2 :: app_state) extra.
               chatMessages st2 = chatMessages st1 @ extra \<and> \<not> list_ex loading extra
               \<longrightarrow> (msg_id (modelPlaceholderMessage 2000)
                          \<notin> msg_id ` set (chatMessages idle_state @ extra)
                        \<longrightarrow> chatMessages (handleSendMessage_settled r result st2)
                              = chatMessages idle_state
                                @ [userMessage 2000 (js ''hello'') [],
                                   terminal_message (modelPlaceholderMessage 2000) result]
                                @ extra)"
      by blast
    from settle [rule_format, of st1 "[]" "Rejected (js ''quota'')"] f
    show ?thesis by (simp add: send r)
  qed
  have w2: "handleSendMessage None 2000 (js ''hello'') [] idle_state
       = (idle_state\<lparr>chatMessages := chatMessages idle_state @
            [system_message (js ''error-apikey-'') 2000
               (js ''ERROR: API Key (process.env.API_KEY) is not configured. Please set it up to send messages.'')]\<rparr>,
          None)"
  proof -
    obtain st1 request where
      send: "handleSendMessage None 2000 (js ''hello'') [] idle_state = (st1, request)"
      by fastforce
    have k: "\<not> truthy None" by (simp add: truthy_def)
    note th = placeholder_replaced_once [OF g idle_state_fields(1,2) send]
    from th [THEN conjunct2, THEN conjunct2, THEN conjunct1, THEN mp, OF k]
    have "request = None
          \<and> st1 = idle_state\<lparr>chatMessages := chatMessages idle_state @
            [system_message (js ''error-apikey-'') 2000
               (js ''ERROR: API Key (process.env.API_KEY) is not configured. Please set it up to send messages.'')]\<rparr>"
      by simp
    then show ?thesis by (simp add: send)
  qed
  let ?s0 = "sys_init demo_env 0"
  let ?s1 = "sys_step demo_env ?s0 (FetchSettles 0 (Rejected []), 10)"
  let ?s2 = "sys_step demo_env ?s1 (Send (js ''hello'') [], 20)"
  let ?s3 = "sys_step demo_env ?s2 (Knowledge (RemoveUrl (js ''x'')), 30)"
  let ?s4 = "sys_step demo_env ?s3 (SendSettles 0 (Fulfilled answer), 40)"
  have w3: "chatMessages (app ?s4) = chatMessages (app ?s3)
          \<and> length (chatMessages (app ?s3)) = 1
          \<and> \<not> isLoading (app ?s4) \<and> pendingSends ?s4 = []"
  proof -
    note i = init_fields [OF demo_key, of 0]
    have l0: "0 < length (pendingFetches ?s0)" using i(1) by simp
    note f1 = FetchSettles_fields [OF l0, of demo_env "Rejected []" 10]
    have idle1: "\<not> isLoading (app ?s1)" "\<not> isFetchingSuggestions (app ?s1)"
      "pendingSends ?s1 = []"
      using f1 i by simp_all
    obtain st1 request where
      send: "handleSendMessage (env_apiKey demo_env) 20 (js ''hello'') [] (app ?s1) = (st1, request)"
      by fastforce
    note th = placeholder_replaced_once [OF g idle1(1,2) send]
    from th [THEN conjunct1, THEN mp, OF demo_key]
    obtain r where r: "request = Some r" and l: "isLoading st1"
      by blast
    note reset = th [THEN conjunct2, THEN conjunct1, rule_format]
    have s2: "app ?s2 = st1" "pendingSends ?s2 = [r]"
      by (simp_all add: sys_step_def [of demo_env ?s1] send r idle1(3) opt_list_def)
    have te: "takes_effect (RemoveUrl (js ''x'')) (app ?s2)"
      by (simp add: takes_effect_def sets_state_def)
    have h: "request = Some r \<and> pendingSends ?s2 = [r] \<and> isLoading (app ?s2)
             \<and> takes_effect (RemoveUrl (js ''x'')) (app ?s2)
             \<and> \<not> list_ex (\<lambda>ev. settles_send (fst ev)) []"
      using r s2 l te by simp
    note z = reset [OF h, of demo_env 30 "Fulfilled answer" 40, unfolded foldl.simps]
    note z2 = z [THEN conjunct2]
    note z6 = z2 [THEN conjunct2, THEN conjunct2, THEN conjunct2, THEN conjunct2]
    show ?thesis
      apply (intro conjI)
      subgoal by (rule z6 [THEN conjunct1])
      subgoal by (rule z2 [THEN conjunct1])
      subgoal by (rule z6 [THEN conjunct2, THEN conjunct1])
      subgoal by (rule z6 [THEN conjunct2, THEN conjunct2])
      done
  qed
  have r1: "sys_run demo_env 0 (take 3 reset_during_send) = ?s3"
    by (simp add: sys_run_def reset_during_send_def send_hello_def)
  have r2: "sys_run demo_env 0 reset_during_send = ?s4"
    by (simp add: sys_run_def reset_during_send_def send_hello_def)
  show ?thesis unfolding r1 r2 using w1 w2 w3 by (simp only: simp_thms)
qed


text \<open>
  The specification promises, for every send that passes the input guard, a
  placeholder and later a terminal message in its place. Neither holds in general:
  without a credential the send appends one system message and no placeholder; and
  when a URL is removed during the call, the transcript after the call has settled is
  the welcome alone.
\<close>

theorem placeholder_counterexample:
  "(\<not> (blank (js ''hello'') \<and> ([] :: AttachedImage list) = [])
    \<and> \<not> isLoading idle_state \<and> \<not> isFetchingSuggestions idle_state
    \<and> filter loading (chatMessages (fst (handleSendMessage None 2000 (js ''hello'') [] idle_state)))
        = [])
   \<and> (filter loading (chatMessages (app (sys_run demo_env 0 send_hello)))
        = [modelPlaceholderMessage 20]
      \<and> pendingSends (sys_run demo_env 0 reset_during_send) = []
      \<and> length (chatMessages (app (sys_run demo_env 0 reset_during_send))) = 1
      \<and> msg_sender (hd (chatMessages (app (sys_run demo_env 0 reset_during_send)))) = SYSTEM
      \<and> msg_id (hd (chatMessages (app (sys_run demo_env 0 reset_during_send))))
          \<noteq> msg_id (modelPlaceholderMessage 20))"
  using send_without_key chat_reset_scenario by blast

end
